theory Spec2Isabelle
  imports Main "HOL-Library.Word"
begin

section \<open>The external collaborators: record store, object store, notifier, console\<close>

text \<open>
  Every handler of the application talks to a hosted backend through the \<^verbatim>\<open>supabase\<close>
  client, shows messages through \<^verbatim>\<open>toast\<close> and logs through \<^verbatim>\<open>console.error\<close>.
  The model keeps the tables and the blob store as lists, and logs every call that a
  handler issues, in the order of issue, together with its outcome. Row identifiers are
  uuid strings in the source; the model uses natural numbers, so that the store can hand
  out a fresh one.
\<close>

type_synonym uuid = nat

text \<open>
  A JavaScript string is a sequence of 16-bit code units. The text that the handlers only
  pass on or print is kept as \<open>string\<close>; the text that a handler inspects (the reason
  of a suspension, through \<^verbatim>\<open>trim\<close>) is kept as its code units.
\<close>

type_synonym code_unit = "16 word"

type_synonym js_string = "code_unit list"

datatype user_type = UT_public | UT_staff | UT_admin | UT_super_admin

text \<open>
  \<^verbatim>\<open>interface UserProfile\<close> of UserManagement.tsx. The fields that no modelled handler reads
  or writes (names, staff unit and position, phone, organization, is_active) are left out.
  A nullable field is an \<open>option\<close>.
\<close>

record UserProfile =
  profile_id :: uuid
  user_id :: uuid
  email :: string
  user_type :: user_type
  is_suspended :: "bool option"
  suspended_at :: "string option"
  suspended_by :: "uuid option"
  suspension_reason :: "js_string option"
  created_at :: int

text \<open>
  \<^verbatim>\<open>interface DocumentFile\<close> (UserManagement.tsx, second component) together with the owner
  and the optional parent reference of the data model. A timestamp column is kept as its
  time value (the milliseconds that \<^verbatim>\<open>new Date(column).getTime()\<close> gives), here and in
  the other tables.
\<close>

record document =
  doc_id :: uuid
  filename :: string
  file_path :: string
  file_size :: nat
  mime_type :: string
  uploaded_at :: int
  doc_user_id :: uuid
  document_type :: "string option"
  intent_registration_id :: "uuid option"

text \<open>The form state of IntentRegistrationNew.tsx, and the row inserted from it.\<close>

record form_data =
  entity_id :: string
  activity_level :: string
  activity_description :: string
  preparatory_work_description :: string
  commencement_date :: string
  completion_date :: string

record intent_registration = form_data +
  intent_id :: uuid
  intent_user_id :: uuid
  status :: string

text \<open>
  The rows that the dashboard reads (PublicDashboard.tsx), with the columns its queries
  select. An application row comes with its joined assessments. The amount of an invoice
  is only ever printed, and is kept as its printed form.
\<close>

record assessment =
  feedback_provided :: "string option"

record permit_application =
  app_id :: uuid
  app_user_id :: uuid
  app_title :: "string option"
  app_status :: string
  app_updated_at :: int
  application_number :: "string option"
  initial_assessments :: "assessment list"

record invoice =
  inv_id :: uuid
  inv_user_id :: uuid
  invoice_number :: string
  payment_status :: string
  amount :: string
  due_date :: int
  inv_updated_at :: int

record notification =
  notif_id :: uuid
  notif_user_id :: uuid
  notif_title :: string
  message :: string
  notif_created_at :: int
  is_read :: bool

text \<open>
  The body of the \<^verbatim>\<open>update\<close> of the suspension fields. \<^verbatim>\<open>suspended_by\<close> is
  \<^verbatim>\<open>profile?.user_id\<close>, which is \<^verbatim>\<open>undefined\<close> without an acting profile; an undefined
  key is dropped when the body is serialised, so the outer \<open>None\<close> stands for a key
  that is not sent, and \<open>Some None\<close> for \<^verbatim>\<open>null\<close>.
\<close>

record suspension_update =
  upd_is_suspended :: bool
  upd_suspended_at :: "string option"
  upd_suspended_by :: "uuid option option"
  upd_suspension_reason :: "js_string option"

datatype store_call =
    Insert_intent_registration intent_registration
  | Insert_document document
  | Delete_document uuid
  | Storage_remove string
  | Update_profile uuid suspension_update
  | Select_profiles
  | Select_documents uuid
  | Select_recent_applications uuid
  | Select_recent_invoices uuid
  | Select_recent_notifications uuid

text \<open>
  What the handlers cannot decide: whether the backend accepts a call (the outcome is a
  function of the call), the clock (as the ISO string of \<^verbatim>\<open>new Date().toISOString()\<close>
  and as a time value), and the time value of \<^verbatim>\<open>new Date(s)\<close> for a string \<open>s\<close>,
  where \<open>None\<close> is the time value NaN of an invalid date. A call that is not accepted
  fails in one of two ways: the client answers with an \<^verbatim>\<open>error\<close> object, or the awaited
  call throws; \<open>throws\<close> tells which. The handlers that rethrow the error of an answer
  (\<^verbatim>\<open>if (error) throw error\<close>) inside their \<^verbatim>\<open>try\<close> end in the same \<^verbatim>\<open>catch\<close> either
  way and read \<open>accepts\<close> only; the dashboard reads both.
\<close>

record env =
  accepts :: "store_call \<Rightarrow> bool"
  throws :: "store_call \<Rightarrow> bool"
  now_iso :: string
  now_ms :: int
  Date_parse :: "string \<Rightarrow> int option"

datatype toast =
    Access_Denied
  | Error_fetch_users
  | Cannot_suspend_Super_Admin
  | Reason_Required
  | Success_user bool
  | Error_update_user
  | Authentication_Required
  | Invalid_Dates
  | Documents_Linked nat
  | Intent_Registration_Submitted
  | Submission_Failed
  | Error_load_documents
  | File_Deleted
  | Deletion_Failed

record system =
  profiles :: "UserProfile list"
  intent_registrations :: "intent_registration list"
  documents :: "document list"
  permit_applications :: "permit_application list"
  invoices :: "invoice list"
  notifications :: "notification list"
  blobs :: "string list"
  next_id :: uuid
  calls :: "(store_call \<times> bool) list"
  history :: "document list list"
  toasts :: "toast list"
  console :: "string list"

text \<open>
  \<open>calls\<close> is the log of the calls issued to the two stores, each with its outcome;
  \<open>history\<close> holds the content of the documents table after each accepted write to it.
  Both are only written by the primitives below.
\<close>

definition toast :: "toast \<Rightarrow> 'a system_scheme \<Rightarrow> 'a system_scheme" where
  "toast t s = s\<lparr>toasts := toasts s @ [t]\<rparr>"

definition console_error :: "string \<Rightarrow> 'a system_scheme \<Rightarrow> 'a system_scheme" where
  "console_error m s = s\<lparr>console := console s @ [m]\<rparr>"

definition issue :: "env \<Rightarrow> store_call \<Rightarrow> 'a system_scheme \<Rightarrow> bool \<times> 'a system_scheme" where
  "issue e c s = (accepts e c, s\<lparr>calls := calls s @ [(c, accepts e c)]\<rparr>)"

section \<open>User administration (UserManagement.tsx)\<close>

record user_management = system +
  profile :: "UserProfile option"
  users :: "UserProfile list"
  um_loading :: bool
  suspendDialogOpen :: bool
  userToSuspend :: "UserProfile option"
  suspensionReason :: js_string

text \<open>The state of a freshly mounted component, over any backend.\<close>

definition mount_user_management :: "system \<Rightarrow> UserProfile option \<Rightarrow> user_management" where
  "mount_user_management b p =
     system.extend b
       (user_management.fields p [] True False None [])"

text \<open>\<^verbatim>\<open>.from('profiles').select('*').order('created_at', { ascending: false })\<close>\<close>

definition select_profiles :: "UserProfile list \<Rightarrow> UserProfile list" where
  "select_profiles ps = sort_key (\<lambda>p. - created_at p) ps"

definition is_admin :: "UserProfile option \<Rightarrow> bool" where
  "is_admin p = (case p of None \<Rightarrow> False
                 | Some q \<Rightarrow> user_type q = UT_admin \<or> user_type q = UT_super_admin)"

definition fetchUsers :: "env \<Rightarrow> user_management \<Rightarrow> user_management" where
  "fetchUsers e s =
     (if \<not> is_admin (profile s) then
        (toast Access_Denied s)\<lparr>um_loading := False\<rparr>
      else
        (case issue e Select_profiles s of
           (True, s1) \<Rightarrow> s1\<lparr>users := select_profiles (profiles s1), um_loading := False\<rparr>
         | (False, s1) \<Rightarrow>
             (toast Error_fetch_users (console_error ''Error fetching users:'' s1))
               \<lparr>um_loading := False\<rparr>))"

text \<open>JavaScript truthiness of a \<^verbatim>\<open>boolean | null\<close>.\<close>

definition truthy :: "bool option \<Rightarrow> bool" where
  "truthy b = (b = Some True)"

text \<open>
  \<^verbatim>\<open>String.prototype.trim\<close> removes the leading and the trailing code units that are
  white space or line terminators of ECMAScript: tab, line feed, vertical tab, form feed,
  carriage return, space, no-break space (U+00A0), U+1680, U+2000 to U+200A, the line and
  the paragraph separator (U+2028, U+2029), U+202F, U+205F, U+3000 and the byte order
  mark (U+FEFF). All of them are single code units.
\<close>

definition is_white_space :: "code_unit \<Rightarrow> bool" where
  "is_white_space c =
     (c \<in> set [0x0009, 0x000A, 0x000B, 0x000C, 0x000D, 0x0020, 0x00A0, 0x1680, 0x2028,
                0x2029, 0x202F, 0x205F, 0x3000, 0xFEFF] \<or>
      (0x2000 \<le> c \<and> c \<le> 0x200A))"

definition trim :: "js_string \<Rightarrow> js_string" where
  "trim s = rev (dropWhile is_white_space (rev (dropWhile is_white_space s)))"

definition apply_update :: "suspension_update \<Rightarrow> UserProfile \<Rightarrow> UserProfile" where
  "apply_update u p =
     p\<lparr>is_suspended := Some (upd_is_suspended u),
       suspended_at := upd_suspended_at u,
       suspended_by := (case upd_suspended_by u of None \<Rightarrow> suspended_by p | Some v \<Rightarrow> v),
       suspension_reason := upd_suspension_reason u\<rparr>"

text \<open>\<^verbatim>\<open>.from('profiles').update(body).eq('id', i)\<close>\<close>

definition db_update_profile ::
  "env \<Rightarrow> uuid \<Rightarrow> suspension_update \<Rightarrow> 'a system_scheme \<Rightarrow> bool \<times> 'a system_scheme" where
  "db_update_profile e i u s =
     (case issue e (Update_profile i u) s of
        (True, s1) \<Rightarrow>
          (True, s1\<lparr>profiles := map (\<lambda>p. if profile_id p = i then apply_update u p else p)
                                   (profiles s1)\<rparr>)
      | (False, s1) \<Rightarrow> (False, s1))"

definition suspension_body :: "env \<Rightarrow> user_management \<Rightarrow> bool \<Rightarrow> suspension_update" where
  "suspension_body e s isSuspending =
     \<lparr>upd_is_suspended = isSuspending,
      upd_suspended_at = (if isSuspending then Some (now_iso e) else None),
      upd_suspended_by =
        (if isSuspending then map_option (\<lambda>p. Some (user_id p)) (profile s) else Some None),
      upd_suspension_reason = (if isSuspending then Some (suspensionReason s) else None)\<rparr>"

definition handleSuspendUser :: "env \<Rightarrow> user_management \<Rightarrow> user_management" where
  "handleSuspendUser e s =
     (case userToSuspend s of
        None \<Rightarrow> s
      | Some u \<Rightarrow>
          if user_type u = UT_super_admin then toast Cannot_suspend_Super_Admin s
          else if \<not> truthy (is_suspended u) \<and> trim (suspensionReason s) = [] then
            toast Reason_Required s
          else
            (let isSuspending = \<not> truthy (is_suspended u);
                 s3 = (case db_update_profile e (profile_id u)
                              (suspension_body e s isSuspending) s of
                         (True, s1) \<Rightarrow>
                           (toast (Success_user isSuspending) (fetchUsers e s1))
                             \<lparr>suspensionReason := []\<rparr>
                       | (False, s1) \<Rightarrow>
                           toast Error_update_user
                             (console_error ''Error updating user:'' s1))
             in s3\<lparr>suspendDialogOpen := False, userToSuspend := None\<rparr>))"

text \<open>
  What the user can do in the component: it mounts (and fetches the users), a row's
  suspend item is clicked, the reason is typed, the dialog is confirmed or closed.
\<close>

datatype um_event =
    Mount
  | Click_suspend UserProfile
  | Type_reason js_string
  | Confirm_suspend
  | Close_dialog

fun um_step :: "env \<Rightarrow> um_event \<Rightarrow> user_management \<Rightarrow> user_management" where
  "um_step e Mount s = fetchUsers e s"
| "um_step e (Click_suspend u) s = s\<lparr>userToSuspend := Some u, suspendDialogOpen := True\<rparr>"
| "um_step e (Type_reason r) s = s\<lparr>suspensionReason := r\<rparr>"
| "um_step e Confirm_suspend s = handleSuspendUser e s"
| "um_step e Close_dialog s = s\<lparr>suspendDialogOpen := False\<rparr>"

fun um_run :: "(env \<times> um_event) list \<Rightarrow> user_management \<Rightarrow> user_management" where
  "um_run [] s = s"
| "um_run ((e, ev) # evs) s = um_run evs (um_step e ev s)"


text \<open>
  The two early returns of \<^verbatim>\<open>handleSuspendUser\<close> are passed: the account is not a super
  admin, and a suspension has a reason that is not blank.
\<close>

definition passes_guards :: "user_management \<Rightarrow> UserProfile \<Rightarrow> bool" where
  "passes_guards s u = (userToSuspend s = Some u \<and> user_type u \<noteq> UT_super_admin \<and>
      (truthy (is_suspended u) \<or> trim (suspensionReason s) \<noteq> []))"

text \<open>
  A run in which every click on a suspend item is a click on a row of the list of users,
  as the table renders it; and the fact such runs keep from the mounted state on: a list
  that is not empty, or a selected account, means that the acting profile is an admin's.
\<close>

fun listed_run :: "(env \<times> um_event) list \<Rightarrow> user_management \<Rightarrow> bool" where
  "listed_run [] s = True"
| "listed_run ((e, ev) # evs) s =
     ((case ev of Click_suspend u \<Rightarrow> u \<in> set (users s) | _ \<Rightarrow> True) \<and>
      listed_run evs (um_step e ev s))"

definition admin_listing :: "user_management \<Rightarrow> bool" where
  "admin_listing s =
     ((users s \<noteq> [] \<longrightarrow> is_admin (profile s)) \<and>
      (userToSuspend s \<noteq> None \<longrightarrow> is_admin (profile s)))"

section \<open>Documents (the second component of UserManagement.tsx, DocumentManagement)\<close>

record document_management = system +
  dm_user :: "uuid option"
  files :: "document list"
  dm_loading :: bool

text \<open>\<^verbatim>\<open>supabase.storage.from('documents').remove([path])\<close>\<close>

definition storage_remove :: "env \<Rightarrow> string \<Rightarrow> 'a system_scheme \<Rightarrow> bool \<times> 'a system_scheme" where
  "storage_remove e path s =
     (case issue e (Storage_remove path) s of
        (True, s1) \<Rightarrow> (True, s1\<lparr>blobs := removeAll path (blobs s1)\<rparr>)
      | (False, s1) \<Rightarrow> (False, s1))"

text \<open>\<^verbatim>\<open>.from('documents').delete().eq('id', i)\<close>\<close>

definition db_delete_document :: "env \<Rightarrow> uuid \<Rightarrow> 'a system_scheme \<Rightarrow> bool \<times> 'a system_scheme" where
  "db_delete_document e i s =
     (case issue e (Delete_document i) s of
        (True, s1) \<Rightarrow>
          (let ds = filter (\<lambda>d. doc_id d \<noteq> i) (documents s1)
           in (True, s1\<lparr>documents := ds, history := history s1 @ [ds]\<rparr>))
      | (False, s1) \<Rightarrow> (False, s1))"

text \<open>
  \<^verbatim>\<open>.from('documents').insert(row)\<close>: the store gives the row its id and its upload time.
\<close>

definition db_insert_document ::
  "env \<Rightarrow> document \<Rightarrow> 'a system_scheme \<Rightarrow> document option \<times> 'a system_scheme" where
  "db_insert_document e d s =
     (let row = d\<lparr>doc_id := next_id s, uploaded_at := now_ms e\<rparr>
      in case issue e (Insert_document row) s of
           (True, s1) \<Rightarrow>
             (Some row, s1\<lparr>documents := documents s1 @ [row], next_id := Suc (next_id s1),
                            history := history s1 @ [documents s1 @ [row]]\<rparr>)
         | (False, s1) \<Rightarrow> (None, s1))"

text \<open>
  \<^verbatim>\<open>.from('documents').select('*').eq('user_id', uid).order('uploaded_at', { ascending: false })\<close>
\<close>

definition select_documents :: "uuid \<Rightarrow> document list \<Rightarrow> document list" where
  "select_documents uid ds =
     sort_key (\<lambda>d. - uploaded_at d) (filter (\<lambda>d. doc_user_id d = uid) ds)"

definition fetchDocuments :: "env \<Rightarrow> document_management \<Rightarrow> document_management" where
  "fetchDocuments e s =
     (case dm_user s of
        None \<Rightarrow> s
      | Some uid \<Rightarrow>
          (case issue e (Select_documents uid) s of
             (True, s1) \<Rightarrow>
               s1\<lparr>files := select_documents uid (documents s1), dm_loading := False\<rparr>
           | (False, s1) \<Rightarrow>
               (toast Error_load_documents (console_error ''Error fetching documents:'' s1))
                 \<lparr>dm_loading := False\<rparr>))"

definition handleDelete :: "env \<Rightarrow> uuid \<Rightarrow> string \<Rightarrow> document_management \<Rightarrow> document_management" where
  "handleDelete e fileId filePath s =
     (case storage_remove e filePath s of
        (False, s1) \<Rightarrow> toast Deletion_Failed (console_error ''Error deleting file:'' s1)
      | (True, s1) \<Rightarrow>
          (case db_delete_document e fileId s1 of
             (False, s2) \<Rightarrow> toast Deletion_Failed (console_error ''Error deleting file:'' s2)
           | (True, s2) \<Rightarrow> toast File_Deleted (fetchDocuments e s2)))"

section \<open>Registration of intent (IntentRegistrationNew.tsx)\<close>

record intent_registration_new = system +
  user :: "uuid option"
  submittedIntentId :: "uuid option"
  currentIntent :: "intent_registration option"
  formData :: form_data
  submitting :: bool
  pendingDocuments :: "document list"

definition empty_form :: form_data where
  "empty_form =
     \<lparr>entity_id = [], activity_level = [], activity_description = [],
      preparatory_work_description = [], commencement_date = [], completion_date = []\<rparr>"

text \<open>
  \<^verbatim>\<open>new Date(a) >= new Date(b)\<close> compares the two time values; a comparison with NaN is
  false.
\<close>

definition date_ge :: "int option \<Rightarrow> int option \<Rightarrow> bool" where
  "date_ge a b = (case a of None \<Rightarrow> False
                  | Some x \<Rightarrow> (case b of None \<Rightarrow> False | Some y \<Rightarrow> y \<le> x))"

text \<open>
  The row of \<^verbatim>\<open>.from('intent_registrations').insert({...}).select().single()\<close>: the
  six fields of the form, the user and the status \<^verbatim>\<open>'pending'\<close>, with the id that the
  store gives it.
\<close>

definition intent_row :: "uuid \<Rightarrow> uuid \<Rightarrow> form_data \<Rightarrow> intent_registration" where
  "intent_row n uid f =
     \<lparr>entity_id = entity_id f, activity_level = activity_level f,
      activity_description = activity_description f,
      preparatory_work_description = preparatory_work_description f,
      commencement_date = commencement_date f,
      completion_date = completion_date f,
      intent_id = n, intent_user_id = uid, status = ''pending''\<rparr>"

definition db_insert_intent_registration ::
  "env \<Rightarrow> uuid \<Rightarrow> form_data \<Rightarrow> 'a system_scheme \<Rightarrow> intent_registration option \<times> 'a system_scheme"
  where
  "db_insert_intent_registration e uid f s =
     (let row = intent_row (next_id s) uid f
      in case issue e (Insert_intent_registration row) s of
           (True, s1) \<Rightarrow>
             (Some row, s1\<lparr>intent_registrations := intent_registrations s1 @ [row],
                            next_id := Suc (next_id s1)\<rparr>)
         | (False, s1) \<Rightarrow> (None, s1))"

text \<open>
  Modelled from the spec: \<^verbatim>\<open>linkDraftsToIntent\<close> of the hook \<^verbatim>\<open>useDocuments\<close>
  (\<^verbatim>\<open>@/hooks/useDocuments\<close>), which is not among the sources. By the linking protocol, for
  every pending draft it creates a new document record carrying the same storage key,
  filename, size and mime type, now with the parent id set; a failure to create a linking
  record is logged and not fatal, the draft is skipped, and the records that were created
  are returned (the caller reports their number). The owner and the category tag, of which
  the spec says nothing, are carried over with the rest of the draft.
\<close>

fun linkDraftsToIntent ::
  "env \<Rightarrow> document list \<Rightarrow> uuid \<Rightarrow> 'a system_scheme \<Rightarrow> document list \<times> 'a system_scheme" where
  "linkDraftsToIntent e [] pid s = ([], s)"
| "linkDraftsToIntent e (d # ds) pid s =
     (case db_insert_document e (d\<lparr>intent_registration_id := Some pid\<rparr>) s of
        (None, s1) \<Rightarrow> linkDraftsToIntent e ds pid (console_error ''Error linking draft:'' s1)
      | (Some r, s1) \<Rightarrow>
          (case linkDraftsToIntent e ds pid s1 of (rs, s2) \<Rightarrow> (r # rs, s2)))"

text \<open>
  Modelled from the spec: \<^verbatim>\<open>deleteDocumentRecordOnly\<close> of the same hook, which is not
  among the sources. It deletes the draft document record and never the blob; a failure
  of the deletion is logged and not raised.
\<close>

definition deleteDocumentRecordOnly :: "env \<Rightarrow> uuid \<Rightarrow> 'a system_scheme \<Rightarrow> 'a system_scheme" where
  "deleteDocumentRecordOnly e i s =
     (case db_delete_document e i s of
        (True, s1) \<Rightarrow> s1
      | (False, s1) \<Rightarrow> console_error ''Error deleting document record:'' s1)"

text \<open>
  \<^verbatim>\<open>handleSubmit\<close>. The deletions of \<^verbatim>\<open>Promise.all(pendingDocuments.map(...))\<close> are
  started in the order of the list, after \<^verbatim>\<open>linkDraftsToIntent\<close> has returned; the model
  runs them in that order. \<^verbatim>\<open>pendingDocuments\<close> is the value of the render in which the
  handler was created. \<^verbatim>\<open>refreshDocuments\<close> re-reads the list shown for the submitted
  intent, which the model does not carry.
\<close>

definition handleSubmit :: "env \<Rightarrow> intent_registration_new \<Rightarrow> intent_registration_new" where
  "handleSubmit e s =
     (case user s of
        None \<Rightarrow> toast Authentication_Required s
      | Some uid \<Rightarrow>
          if date_ge (Date_parse e (commencement_date (formData s)))
                     (Date_parse e (completion_date (formData s)))
          then toast Invalid_Dates s
          else
            (case db_insert_intent_registration e uid (formData s) (s\<lparr>submitting := True\<rparr>) of
               (None, s1) \<Rightarrow>
                 (toast Submission_Failed
                    (console_error ''Error submitting intent registration:'' s1))
                   \<lparr>submitting := False\<rparr>
             | (Some data, s1) \<Rightarrow>
                 (let s2 = s1\<lparr>submittedIntentId := Some (intent_id data),
                              currentIntent := Some data\<rparr>;
                      s3 = (if pendingDocuments s \<noteq> [] then
                              (case linkDraftsToIntent e (pendingDocuments s) (intent_id data) s2 of
                                 (linked, s') \<Rightarrow>
                                   toast (Documents_Linked (length linked))
                                     ((fold (\<lambda>d. deleteDocumentRecordOnly e (doc_id d))
                                         (pendingDocuments s) s')
                                        \<lparr>pendingDocuments := []\<rparr>))
                            else s2)
                  in (toast Intent_Registration_Submitted s3)
                       \<lparr>formData := empty_form, submitting := False\<rparr>)))"

text \<open>
  The linking steps of \<open>handleSubmit\<close> on their own, run on the state \<open>t\<close> reached
  after the insert, for stating what they do.
\<close>

definition link_phase ::
  "env \<Rightarrow> document list \<Rightarrow> uuid \<Rightarrow> intent_registration_new \<Rightarrow> intent_registration_new" where
  "link_phase e ps pid t =
     (case linkDraftsToIntent e ps pid t of
        (linked, t') \<Rightarrow>
          toast (Documents_Linked (length linked))
            ((fold (\<lambda>d. deleteDocumentRecordOnly e (doc_id d)) ps t')
               \<lparr>pendingDocuments := []\<rparr>))"

definition after_insert ::
  "intent_registration_new \<Rightarrow> store_call \<Rightarrow> intent_registration \<Rightarrow> intent_registration_new" where
  "after_insert s c row =
     s\<lparr>submitting := True, calls := calls s @ [(c, True)],
       intent_registrations := intent_registrations s @ [row], next_id := Suc (next_id s),
       submittedIntentId := Some (intent_id row), currentIntent := Some row\<rparr>"

text \<open>The number of records of a documents table that point at a storage key.\<close>

definition refs :: "string \<Rightarrow> document list \<Rightarrow> nat" where
  "refs k ds = length (filter (\<lambda>d. file_path d = k) ds)"

text \<open>
  The record that the store creates for a draft linked to the intent \<open>pid\<close>, and the
  records created for a list of drafts when ids are handed out from \<open>n\<close>.
\<close>

definition linked_row :: "env \<Rightarrow> uuid \<Rightarrow> uuid \<Rightarrow> document \<Rightarrow> document" where
  "linked_row e pid n d =
     d\<lparr>doc_id := n, uploaded_at := now_ms e, intent_registration_id := Some pid\<rparr>"

fun linked_rows :: "env \<Rightarrow> uuid \<Rightarrow> uuid \<Rightarrow> document list \<Rightarrow> document list" where
  "linked_rows e pid n [] = []"
| "linked_rows e pid n (d # ds) = linked_row e pid n d # linked_rows e pid (Suc n) ds"

text \<open>The document records created by a sequence of calls.\<close>

fun created_documents :: "(store_call \<times> bool) list \<Rightarrow> document list" where
  "created_documents [] = []"
| "created_documents ((Insert_document r, True) # cs) = r # created_documents cs"
| "created_documents (c # cs) = created_documents cs"

text \<open>
  The records that the cleanup of the drafts \<open>ds\<close> removes: those whose id is the id
  of one of the drafts and whose deletion the store accepts.
\<close>

definition deleted :: "env \<Rightarrow> document list \<Rightarrow> document \<Rightarrow> bool" where
  "deleted e ds x = (doc_id x \<in> doc_id ` set ds \<and> accepts e (Delete_document (doc_id x)))"

section \<open>Dashboard (PublicDashboard.tsx)\<close>

datatype activity_type = Application | Invoice | Notification | Document

















text \<open>The calls that write: every call but the reads.\<close>

definition is_write :: "store_call \<times> bool \<Rightarrow> bool" where
  "is_write c =
     (case fst c of
        Select_profiles \<Rightarrow> False
      | Select_documents u \<Rightarrow> False
      | Select_recent_applications u \<Rightarrow> False
      | Select_recent_invoices u \<Rightarrow> False
      | Select_recent_notifications u \<Rightarrow> False
      | _ \<Rightarrow> True)"

definition new_calls :: "'a system_scheme \<Rightarrow> 'a system_scheme \<Rightarrow> (store_call \<times> bool) list" where
  "new_calls s s' = drop (length (calls s)) (calls s')"

section \<open>Sample data\<close>

text \<open>
  A backend with three profiles and two draft documents of user 21, the pages of the
  components over it, and stores that accept every call or reject one of them.
\<close>

definition example_env :: env where
  "example_env =
     \<lparr>accepts = (\<lambda>c. True), throws = (\<lambda>c. False),
      now_iso = ''2025-03-01T10:00:00.000Z'', now_ms = 1000,
      Date_parse = (\<lambda>s. if s = ''2025-01-01'' then Some 0
                          else if s = ''2025-02-01'' then Some 31 else None)\<rparr>"

definition admin_alice :: UserProfile where
  "admin_alice = \<lparr>profile_id = 1, user_id = 11, email = ''alice@example.org'',
     user_type = UT_admin, is_suspended = None, suspended_at = None, suspended_by = None,
     suspension_reason = None, created_at = 100\<rparr>"

definition public_bob :: UserProfile where
  "public_bob = \<lparr>profile_id = 2, user_id = 12, email = ''bob@example.org'',
     user_type = UT_public, is_suspended = Some False, suspended_at = None, suspended_by = None,
     suspension_reason = None, created_at = 200\<rparr>"

definition super_root :: UserProfile where
  "super_root = \<lparr>profile_id = 3, user_id = 13, email = ''root@example.org'',
     user_type = UT_super_admin, is_suspended = None, suspended_at = None, suspended_by = None,
     suspension_reason = None, created_at = 50\<rparr>"

definition example_backend :: system where
  "example_backend =
     \<lparr>profiles = [admin_alice, public_bob, super_root], intent_registrations = [],
      documents = [], permit_applications = [], invoices = [], notifications = [],
      blobs = [], next_id = 100, calls = [], history = [], toasts = [],
      console = []\<rparr>"

text \<open>
  Two reasons: the code units of \<^verbatim>\<open>spam\<close>, and a space, a no-break space and an em
  space.
\<close>

definition reason_spam :: js_string where
  "reason_spam = [0x73, 0x70, 0x61, 0x6D]"

definition reason_blank :: js_string where
  "reason_blank = [0x20, 0xA0, 0x2003]"

definition suspend_dialog :: "UserProfile \<Rightarrow> UserProfile \<Rightarrow> js_string \<Rightarrow> user_management" where
  "suspend_dialog a u r =
     (mount_user_management example_backend (Some a))
       \<lparr>users := [public_bob, admin_alice, super_root], um_loading := False,
        suspendDialogOpen := True, userToSuspend := Some u, suspensionReason := r\<rparr>"

definition draft_a :: document where
  "draft_a = \<lparr>doc_id = 7, filename = ''plan.pdf'', file_path = ''21/intent_draft/a.pdf'',
     file_size = 2048, mime_type = ''application/pdf'', uploaded_at = 10, doc_user_id = 21,
     document_type = Some ''intent_draft'', intent_registration_id = None\<rparr>"

definition draft_b :: document where
  "draft_b = \<lparr>doc_id = 8, filename = ''map.png'', file_path = ''21/intent_draft/b.png'',
     file_size = 512, mime_type = ''image/png'', uploaded_at = 20, doc_user_id = 21,
     document_type = Some ''intent_draft'', intent_registration_id = None\<rparr>"

definition documents_backend :: system where
  "documents_backend =
     example_backend\<lparr>documents := [draft_a, draft_b],
        blobs := [''21/intent_draft/a.pdf'', ''21/intent_draft/b.png'']\<rparr>"

definition documents_page :: document_management where
  "documents_page =
     system.extend documents_backend
       (document_management.fields (Some 21) [draft_a, draft_b] False)"

definition failing_storage :: env where
  "failing_storage =
     example_env\<lparr>accepts := (\<lambda>c. c \<noteq> Storage_remove ''21/intent_draft/a.pdf'')\<rparr>"

definition sample_form :: form_data where
  "sample_form =
     \<lparr>entity_id = ''entity-1'', activity_level = ''2'', activity_description = ''Quarry'',
      preparatory_work_description = ''Survey'', commencement_date = ''2025-01-01'',
      completion_date = ''2025-02-01''\<rparr>"

definition intent_page :: "form_data \<Rightarrow> document list \<Rightarrow> intent_registration_new" where
  "intent_page f ps =
     system.extend documents_backend
       (intent_registration_new.fields (Some 21) None None f False ps)"

definition rejecting_store :: env where
  "rejecting_store =
     example_env\<lparr>accepts :=
       (\<lambda>c. case c of Insert_intent_registration r \<Rightarrow> False | _ \<Rightarrow> True)\<rparr>"

definition failing_cleanup :: env where
  "failing_cleanup = example_env\<lparr>accepts := (\<lambda>c. c \<noteq> Delete_document 7)\<rparr>"








definition failing_link :: env where
  "failing_link =
     example_env\<lparr>accepts :=
       (\<lambda>c. case c of Insert_document r \<Rightarrow> file_path r \<noteq> ''21/intent_draft/a.pdf''
             | _ \<Rightarrow> True)\<rparr>"

section \<open>Properties of the collaborators\<close>

lemma toast_simps [simp]:
  "calls (toast t s) = calls s" "profiles (toast t s) = profiles s"
  "documents (toast t s) = documents s" "blobs (toast t s) = blobs s"
  "toasts (toast t s) = toasts s @ [t]" "console (toast t s) = console s"
  "history (toast t s) = history s" "next_id (toast t s) = next_id s"
  "intent_registrations (toast t s) = intent_registrations s"
  "permit_applications (toast t s) = permit_applications s"
  "invoices (toast t s) = invoices s" "notifications (toast t s) = notifications s"
  by (simp_all add: toast_def)

lemma console_error_simps [simp]:
  "calls (console_error t s) = calls s" "profiles (console_error t s) = profiles s"
  "documents (console_error t s) = documents s" "blobs (console_error t s) = blobs s"
  "toasts (console_error t s) = toasts s" "console (console_error t s) = console s @ [t]"
  "history (console_error t s) = history s" "next_id (console_error t s) = next_id s"
  "intent_registrations (console_error t s) = intent_registrations s"
  "permit_applications (console_error t s) = permit_applications s"
  "invoices (console_error t s) = invoices s"
  "notifications (console_error t s) = notifications s"
  by (simp_all add: console_error_def)

lemma toast_more [simp]: "system.more (toast t s) = system.more s"
  by (simp add: toast_def)

lemma um_toast [simp]:
  "users (toast t s) = users s" "profile (toast t s) = profile s"
  "userToSuspend (toast t s) = userToSuspend s"
  by (simp_all add: toast_def)

lemma fetchUsers_profiles [simp]: "profiles (fetchUsers e s) = profiles s"
  by (simp add: fetchUsers_def issue_def split: bool.splits)

lemma issue_simps [simp]:
  "fst (issue e c s) = accepts e c"
  "calls (snd (issue e c s)) = calls s @ [(c, accepts e c)]"
  "documents (snd (issue e c s)) = documents s"
  "blobs (snd (issue e c s)) = blobs s"
  "toasts (snd (issue e c s)) = toasts s"
  "console (snd (issue e c s)) = console s"
  "history (snd (issue e c s)) = history s"
  "next_id (snd (issue e c s)) = next_id s"
  "intent_registrations (snd (issue e c s)) = intent_registrations s"
  by (simp_all add: issue_def)

section \<open>Properties of user administration\<close>







lemma fetchUsers_calls:
  "calls (fetchUsers e s) =
     calls s @ (if is_admin (profile s) then [(Select_profiles, accepts e Select_profiles)] else [])"
  by (simp add: fetchUsers_def issue_def split: bool.splits)

lemma db_update_profile_calls:
  "calls (snd (db_update_profile e i u s)) = calls s @ [(Update_profile i u, accepts e (Update_profile i u))]"
  by (simp add: db_update_profile_def issue_def split: bool.splits)

lemma db_update_profile_fst:
  "fst (db_update_profile e i u s) = accepts e (Update_profile i u)"
  by (simp add: db_update_profile_def issue_def split: bool.splits)

lemma db_update_profile_profile:
  "profile (snd (db_update_profile e i u s)) = profile s"
  by (simp add: db_update_profile_def issue_def split: bool.splits)

lemma db_update_profile_profiles:
  "profiles (snd (db_update_profile e i u s)) =
     (if accepts e (Update_profile i u)
      then map (\<lambda>p. if profile_id p = i then apply_update u p else p) (profiles s)
      else profiles s)"
  by (simp add: db_update_profile_def issue_def split: bool.splits)

lemma handleSuspendUser_unfold:
  assumes "passes_guards s u"
  shows "handleSuspendUser e s =
    (let r = db_update_profile e (profile_id u) (suspension_body e s (\<not> truthy (is_suspended u))) s in
     (if fst r then (toast (Success_user (\<not> truthy (is_suspended u))) (fetchUsers e (snd r)))\<lparr>suspensionReason := []\<rparr>
      else toast Error_update_user (console_error ''Error updating user:'' (snd r)))
       \<lparr>suspendDialogOpen := False, userToSuspend := None\<rparr>)"
  using assms
  by (auto simp: passes_guards_def handleSuspendUser_def Let_def split: prod.splits bool.splits)

lemma handleSuspendUser_calls:
  assumes "passes_guards s u"
  shows "calls (handleSuspendUser e s) =
     calls s @
     (let c = Update_profile (profile_id u) (suspension_body e s (\<not> truthy (is_suspended u)))
      in (c, accepts e c) #
         (if accepts e c \<and> is_admin (profile s)
          then [(Select_profiles, accepts e Select_profiles)] else []))"
  by (simp add: handleSuspendUser_unfold [OF assms] Let_def fetchUsers_calls
      db_update_profile_calls db_update_profile_fst db_update_profile_profile)

lemma handleSuspendUser_profiles:
  assumes "passes_guards s u"
  shows "profiles (handleSuspendUser e s) =
     (let b = suspension_body e s (\<not> truthy (is_suspended u)) in
      if accepts e (Update_profile (profile_id u) b)
      then map (\<lambda>p. if profile_id p = profile_id u then apply_update b p else p) (profiles s)
      else profiles s)"
  by (simp add: handleSuspendUser_unfold [OF assms] Let_def 
      db_update_profile_profiles db_update_profile_fst)

lemma handleSuspendUser_rejected:
  assumes "userToSuspend s = Some u" "\<not> passes_guards s u"
  shows "handleSuspendUser e s =
      toast (if user_type u = UT_super_admin then Cannot_suspend_Super_Admin else Reason_Required) s"
  using assms by (auto simp: passes_guards_def handleSuspendUser_def)


lemma is_write_simps [simp]:
  "is_write (Update_profile i b, ok)" "\<not> is_write (Select_profiles, ok)"
  by (simp_all add: is_write_def)

lemma trim_empty_iff: "trim r = [] \<longleftrightarrow> list_all is_white_space r"
proof
  assume "trim r = []"
  then have e: "\<forall>x\<in>set (dropWhile is_white_space r). is_white_space x"
    by (simp add: trim_def)
  show "list_all is_white_space r"
  proof (cases "dropWhile is_white_space r")
    case Nil
    then show ?thesis by (simp add: list_all_iff)
  next
    case (Cons x xs)
    then have "\<not> is_white_space x"
      using hd_dropWhile [of is_white_space r] by simp
    moreover from e Cons have "is_white_space x" by simp
    ultimately show ?thesis by simp
  qed
next
  assume "list_all is_white_space r"
  then have "\<forall>x\<in>set r. is_white_space x"
    by (simp add: list_all_iff)
  then have "dropWhile is_white_space r = []"
    by simp
  then show "trim r = []"
    unfolding trim_def by (simp del: dropWhile_eq_Nil_conv)
qed

lemma fetchUsers_admin_listing:
  "admin_listing s \<Longrightarrow> admin_listing (fetchUsers e s)"
  by (auto simp: admin_listing_def fetchUsers_def issue_def toast_def console_error_def
      split: bool.splits)

lemma fetchUsers_profile [simp]: "profile (fetchUsers e s) = profile s"
  by (simp add: fetchUsers_def issue_def toast_def console_error_def split: bool.splits)

lemma handleSuspendUser_profile [simp]: "profile (handleSuspendUser e s) = profile s"
  by (simp add: handleSuspendUser_def db_update_profile_def issue_def toast_def
      console_error_def Let_def split: option.splits bool.splits)

lemma handleSuspendUser_admin_listing:
  assumes "admin_listing s"
  shows "admin_listing (handleSuspendUser e s)"
proof (cases "userToSuspend s")
  case None
  then show ?thesis using assms by (simp add: handleSuspendUser_def)
next
  case (Some u)
  show ?thesis
  proof (cases "passes_guards s u")
    case False
    from handleSuspendUser_rejected [OF Some False] assms show ?thesis
      by (simp add: admin_listing_def toast_def)
  next
    case True
    let ?r = "db_update_profile e (profile_id u)
                (suspension_body e s (\<not> truthy (is_suspended u))) s"
    have a: "admin_listing (snd ?r)"
      using assms
      by (simp add: admin_listing_def db_update_profile_def issue_def split: bool.splits)
    then have "admin_listing (fetchUsers e (snd ?r))"
      by (rule fetchUsers_admin_listing)
    with a show ?thesis
      by (simp add: handleSuspendUser_unfold [OF True] Let_def admin_listing_def
          toast_def console_error_def)
  qed
qed

lemma um_step_profile [simp]: "profile (um_step e ev s) = profile s"
  by (cases ev) simp_all

lemma um_step_admin_listing:
  assumes "admin_listing s"
    and "case ev of Click_suspend u \<Rightarrow> u \<in> set (users s) | _ \<Rightarrow> True"
  shows "admin_listing (um_step e ev s)"
proof (cases ev)
  case Mount
  with assms show ?thesis by (simp add: fetchUsers_admin_listing)
next
  case (Click_suspend u)
  with assms have "users s \<noteq> []" by auto
  with assms(1) Click_suspend show ?thesis by (simp add: admin_listing_def)
next
  case (Type_reason r)
  with assms show ?thesis by (simp add: admin_listing_def)
next
  case Confirm_suspend
  with assms show ?thesis by (simp add: handleSuspendUser_admin_listing)
next
  case Close_dialog
  with assms show ?thesis by (simp add: admin_listing_def)
qed

lemma um_run_admin_listing:
  "admin_listing s \<Longrightarrow> listed_run evs s \<Longrightarrow> admin_listing (um_run evs s)"
proof (induction evs arbitrary: s)
  case Nil
  then show ?case by simp
next
  case (Cons a evs)
  obtain e ev where a: "a = (e, ev)" by (cases a)
  from Cons.prems have "admin_listing (um_step e ev s)" "listed_run evs (um_step e ev s)"
    by (simp_all add: a um_step_admin_listing)
  then show ?case unfolding a um_run.simps by (rule Cons.IH)
qed

lemma mounted_acting_profile:
  assumes "listed_run evs (mount_user_management b p)"
    and "userToSuspend (um_run evs (mount_user_management b p)) = Some u"
  shows "\<exists>a. profile (um_run evs (mount_user_management b p)) = Some a \<and> p = Some a"
proof -
  have "admin_listing (mount_user_management b p)"
    by (simp add: admin_listing_def mount_user_management_def system.defs
        user_management.defs)
  from um_run_admin_listing [OF this assms(1)] assms(2)
  have "is_admin (profile (um_run evs (mount_user_management b p)))"
    by (simp add: admin_listing_def)
  moreover have "profile (um_run evs s) = profile s" for s
    by (induction evs arbitrary: s) auto
  moreover have "profile (mount_user_management b p) = p"
    by (simp add: mount_user_management_def system.defs user_management.defs)
  ultimately show ?thesis by (cases p) (simp_all add: is_admin_def)
qed


lemma suspend_dialog_simps:
  "userToSuspend (suspend_dialog a u r) = Some u"
  "profile (suspend_dialog a u r) = Some a"
  "suspensionReason (suspend_dialog a u r) = r"
  "profiles (suspend_dialog a u r) = [admin_alice, public_bob, super_root]"
  "users (suspend_dialog a u r) = [public_bob, admin_alice, super_root]"
  "calls (suspend_dialog a u r) = []"
  "toasts (suspend_dialog a u r) = []"
  by (simp_all add: suspend_dialog_def mount_user_management_def example_backend_def
      system.defs user_management.defs)

lemma sample_profile_simps:
  "profile_id admin_alice = 1" "profile_id public_bob = 2" "profile_id super_root = 3"
  "user_id admin_alice = 11" "user_type admin_alice = UT_admin"
  "user_type public_bob = UT_public" "user_type super_root = UT_super_admin"
  "is_suspended public_bob = Some False"
  by (simp_all add: admin_alice_def public_bob_def super_root_def)

lemma example_env_simps:
  "accepts example_env c" "now_iso example_env = ''2025-03-01T10:00:00.000Z''"
  by (simp_all add: example_env_def)

lemma trim_samples: "trim reason_blank = []" "trim reason_spam \<noteq> []"
  by (simp_all add: trim_def is_white_space_def reason_blank_def reason_spam_def)

text \<open>
  C10. The listing of users is gated on the acting profile: when it is missing, or its
  type is neither admin nor super admin, \<open>fetchUsers\<close> issues no call to the record
  store, leaves the user list as it is (empty, from the mounted state) and only shows the
  access-denied notification.
\<close>

theorem fetchUsers_admin_gated:
  assumes "\<not> is_admin (profile s)"
  shows "calls (fetchUsers e s) = calls s \<and> users (fetchUsers e s) = users s \<and>
         profiles (fetchUsers e s) = profiles s \<and>
         toasts (fetchUsers e s) = toasts s @ [Access_Denied] \<and>
         (users s = [] \<longrightarrow> users (fetchUsers e s) = [])"
  using assms by (simp add: fetchUsers_def)

theorem fetchUsers_admin_gated_witness:
  "\<not> is_admin (Some public_bob) \<and>
   calls (fetchUsers example_env (mount_user_management example_backend (Some public_bob))) = [] \<and>
   users (fetchUsers example_env (mount_user_management example_backend (Some public_bob))) = [] \<and>
   toasts (fetchUsers example_env (mount_user_management example_backend (Some public_bob)))
     = [Access_Denied]"
proof -
  let ?s = "mount_user_management example_backend (Some public_bob)"
  have s: "profile ?s = Some public_bob" "users ?s = []" "calls ?s = []" "toasts ?s = []"
    by (simp_all add: mount_user_management_def example_backend_def
        system.defs user_management.defs)
  have n: "\<not> is_admin (profile ?s)"
    by (simp add: s is_admin_def sample_profile_simps)
  from fetchUsers_admin_gated [OF n, of example_env] n show ?thesis
    by (simp add: s)
qed

text \<open>
  C5. When the selected account is a super admin, \<open>handleSuspendUser\<close> only shows the
  notification that super admins cannot be suspended, whatever the direction (the
  direction is the negation of the account's current \<open>is_suspended\<close>): no call is
  issued and the profiles table, with its four suspension fields, is unchanged.
\<close>

theorem handleSuspendUser_protected:
  assumes "userToSuspend s = Some u" and "user_type u = UT_super_admin"
  shows "handleSuspendUser e s = toast Cannot_suspend_Super_Admin s \<and>
         calls (handleSuspendUser e s) = calls s \<and>
         profiles (handleSuspendUser e s) = profiles s \<and>
         users (handleSuspendUser e s) = users s"
  using assms by (simp add: handleSuspendUser_def)

theorem handleSuspendUser_protected_witness:
  "user_type super_root = UT_super_admin \<and>
   toasts (handleSuspendUser example_env (suspend_dialog admin_alice super_root reason_spam))
     = [Cannot_suspend_Super_Admin] \<and>
   calls (handleSuspendUser example_env (suspend_dialog admin_alice super_root reason_spam)) = [] \<and>
   profiles (handleSuspendUser example_env (suspend_dialog admin_alice super_root reason_spam))
     = [admin_alice, public_bob, super_root] \<and>
   handleSuspendUser example_env
      (suspend_dialog admin_alice (super_root\<lparr>is_suspended := Some True\<rparr>) [])
     = toast Cannot_suspend_Super_Admin
         (suspend_dialog admin_alice (super_root\<lparr>is_suspended := Some True\<rparr>) [])"
proof -
  have t: "user_type (super_root\<lparr>is_suspended := Some True\<rparr>) = UT_super_admin"
    by (simp add: sample_profile_simps)
  from handleSuspendUser_protected
         [where s = "suspend_dialog admin_alice super_root reason_spam" and e = example_env,
          OF suspend_dialog_simps(1) sample_profile_simps(7)]
       handleSuspendUser_protected
         [where s = "suspend_dialog admin_alice (super_root\<lparr>is_suspended := Some True\<rparr>) []"
            and e = example_env, OF suspend_dialog_simps(1) t]
  show ?thesis
    by (simp add: suspend_dialog_simps sample_profile_simps)
qed

lemma handleSuspendUser_reason:
  assumes "userToSuspend s = Some u" and "user_type u \<noteq> UT_super_admin"
    and "\<not> truthy (is_suspended u)" and "profile s = Some a"
  shows "(trim (suspensionReason s) = [] \<longrightarrow>
            handleSuspendUser e s = toast Reason_Required s \<and>
            calls (handleSuspendUser e s) = calls s \<and>
            profiles (handleSuspendUser e s) = profiles s) \<and>
         (trim (suspensionReason s) \<noteq> [] \<longrightarrow>
            (let c = Update_profile (profile_id u)
                       \<lparr>upd_is_suspended = True, upd_suspended_at = Some (now_iso e),
                        upd_suspended_by = Some (Some (user_id a)),
                        upd_suspension_reason = Some (suspensionReason s)\<rparr>
             in (\<exists>rest. calls (handleSuspendUser e s) = calls s @ (c, accepts e c) # rest) \<and>
                (accepts e c \<longrightarrow>
                   profiles (handleSuspendUser e s) =
                     map (\<lambda>p. if profile_id p = profile_id u
                               then p\<lparr>is_suspended := Some True,
                                      suspended_at := Some (now_iso e),
                                      suspended_by := Some (user_id a),
                                      suspension_reason := Some (suspensionReason s)\<rparr>
                               else p) (profiles s))))"
proof (cases "trim (suspensionReason s) = []")
  case True
  then have "\<not> passes_guards s u" using assms by (simp add: passes_guards_def)
  from handleSuspendUser_rejected [OF assms(1) this] assms(2) True
  show ?thesis by simp
next
  case False
  then have g: "passes_guards s u" using assms by (simp add: passes_guards_def)
  show ?thesis
    using False assms(3,4)
    by (simp add: handleSuspendUser_calls [OF g] handleSuspendUser_profiles [OF g]
        Let_def suspension_body_def apply_update_def)
qed

text \<open>
  C6. The reason is blank, that is empty after \<^verbatim>\<open>trim\<close>, exactly when all its code units
  are white space (the empty reason among them). For an account that is not a super admin
  and is not suspended (so the dialog suspends it), with an acting profile (there is one
  whenever the account was clicked in the list, by \<open>mounted_acting_profile\<close>): a blank
  reason makes \<open>handleSuspendUser\<close> show the reason-required notification and nothing
  else, with no call and no change of the profiles; any other reason makes the first call
  issued the update of that account whose body sets \<open>is_suspended\<close> to true,
  \<open>suspended_at\<close> to the current time, \<open>suspended_by\<close> to the acting admin's id and
  \<open>suspension_reason\<close> to the text, and when the store accepts it the account's row
  holds these four values.
\<close>

theorem handleSuspendUser_suspend:
  assumes "userToSuspend s = Some u" and "user_type u \<noteq> UT_super_admin"
    and "\<not> truthy (is_suspended u)" and "profile s = Some a"
  shows "((trim (suspensionReason s) = []) = list_all is_white_space (suspensionReason s)) \<and>
         (trim (suspensionReason s) = [] \<longrightarrow>
            handleSuspendUser e s = toast Reason_Required s \<and>
            calls (handleSuspendUser e s) = calls s \<and>
            profiles (handleSuspendUser e s) = profiles s) \<and>
         (trim (suspensionReason s) \<noteq> [] \<longrightarrow>
            (let c = Update_profile (profile_id u)
                       \<lparr>upd_is_suspended = True, upd_suspended_at = Some (now_iso e),
                        upd_suspended_by = Some (Some (user_id a)),
                        upd_suspension_reason = Some (suspensionReason s)\<rparr>
             in (\<exists>rest. calls (handleSuspendUser e s) = calls s @ (c, accepts e c) # rest) \<and>
                (accepts e c \<longrightarrow>
                   profiles (handleSuspendUser e s) =
                     map (\<lambda>p. if profile_id p = profile_id u
                               then p\<lparr>is_suspended := Some True,
                                      suspended_at := Some (now_iso e),
                                      suspended_by := Some (user_id a),
                                      suspension_reason := Some (suspensionReason s)\<rparr>
                               else p) (profiles s))))"
  by (rule conjI, rule trim_empty_iff, rule handleSuspendUser_reason [OF assms])

theorem handleSuspendUser_suspend_witness:
  "list_all is_white_space reason_blank \<and>
   handleSuspendUser example_env (suspend_dialog admin_alice public_bob reason_blank) =
     toast Reason_Required (suspend_dialog admin_alice public_bob reason_blank) \<and>
   profiles (handleSuspendUser example_env (suspend_dialog admin_alice public_bob reason_spam)) =
     [admin_alice,
      public_bob\<lparr>is_suspended := Some True, suspended_at := Some ''2025-03-01T10:00:00.000Z'',
        suspended_by := Some 11, suspension_reason := Some reason_spam\<rparr>,
      super_root]"
proof -
  have u: "user_type public_bob \<noteq> UT_super_admin" "\<not> truthy (is_suspended public_bob)"
    by (simp_all add: sample_profile_simps truthy_def)
  note s = suspend_dialog_simps
  from handleSuspendUser_suspend
         [where s = "suspend_dialog admin_alice public_bob reason_blank" and e = example_env,
          OF s(1) u s(2)]
       handleSuspendUser_suspend
         [where s = "suspend_dialog admin_alice public_bob reason_spam" and e = example_env,
          OF s(1) u s(2)]
  show ?thesis
    by (simp add: s trim_samples sample_profile_simps example_env_simps Let_def)
qed




section \<open>Properties of the document handlers\<close>

lemma storage_remove_simps:
  "fst (storage_remove e p s) = accepts e (Storage_remove p)"
  "calls (snd (storage_remove e p s)) = calls s @ [(Storage_remove p, accepts e (Storage_remove p))]"
  "documents (snd (storage_remove e p s)) = documents s"
  "blobs (snd (storage_remove e p s)) =
     (if accepts e (Storage_remove p) then removeAll p (blobs s) else blobs s)"
  "toasts (snd (storage_remove e p s)) = toasts s"
  "dm_user (snd (storage_remove e p s)) = dm_user s"
  by (simp_all add: storage_remove_def issue_def split: bool.splits)

lemma db_delete_document_simps:
  "fst (db_delete_document e i s) = accepts e (Delete_document i)"
  "calls (snd (db_delete_document e i s)) = calls s @ [(Delete_document i, accepts e (Delete_document i))]"
  "documents (snd (db_delete_document e i s)) =
     (if accepts e (Delete_document i) then filter (\<lambda>d. doc_id d \<noteq> i) (documents s)
      else documents s)"
  "blobs (snd (db_delete_document e i s)) = blobs s"
  "toasts (snd (db_delete_document e i s)) = toasts s"
  "intent_registrations (snd (db_delete_document e i s)) = intent_registrations s"
  "next_id (snd (db_delete_document e i s)) = next_id s"
  by (simp_all add: db_delete_document_def issue_def Let_def split: bool.splits)

lemma db_delete_document_dm_user:
  "dm_user (snd (db_delete_document e i s)) = dm_user s"
  by (simp add: db_delete_document_def issue_def Let_def split: bool.splits)

lemma fetchDocuments_simps:
  "calls (fetchDocuments e s) =
     calls s @ (case dm_user s of None \<Rightarrow> []
                | Some uid \<Rightarrow> [(Select_documents uid, accepts e (Select_documents uid))])"
  "documents (fetchDocuments e s) = documents s"
  "blobs (fetchDocuments e s) = blobs s"
  by (simp_all add: fetchDocuments_def issue_def split: option.splits bool.splits)

lemma handleDelete_unfold:
  "handleDelete e i p s =
     (let r1 = storage_remove e p s in
      if fst r1 then
        (let r2 = db_delete_document e i (snd r1) in
         if fst r2 then toast File_Deleted (fetchDocuments e (snd r2))
         else toast Deletion_Failed (console_error ''Error deleting file:'' (snd r2)))
      else toast Deletion_Failed (console_error ''Error deleting file:'' (snd r1)))"
  by (simp add: handleDelete_def Let_def split: prod.splits bool.splits)

lemma handleDelete_calls:
  "calls (handleDelete e i p s) =
     calls s @ (Storage_remove p, accepts e (Storage_remove p)) #
       (if accepts e (Storage_remove p) then
          (Delete_document i, accepts e (Delete_document i)) #
            (if accepts e (Delete_document i) then
               (case dm_user s of None \<Rightarrow> []
                | Some uid \<Rightarrow> [(Select_documents uid, accepts e (Select_documents uid))])
             else [])
        else [])"
  by (simp add: handleDelete_unfold Let_def storage_remove_simps db_delete_document_simps
      db_delete_document_dm_user fetchDocuments_simps)

lemma handleDelete_documents:
  "documents (handleDelete e i p s) =
     (if accepts e (Storage_remove p) \<and> accepts e (Delete_document i)
      then filter (\<lambda>d. doc_id d \<noteq> i) (documents s) else documents s)"
  by (simp add: handleDelete_unfold Let_def storage_remove_simps db_delete_document_simps
      fetchDocuments_simps)

lemma handleDelete_blobs:
  "blobs (handleDelete e i p s) =
     (if accepts e (Storage_remove p) then removeAll p (blobs s) else blobs s)"
  by (simp add: handleDelete_unfold Let_def storage_remove_simps db_delete_document_simps
      fetchDocuments_simps)

lemma handleDelete_toasts_failed:
  "\<not> accepts e (Storage_remove p) \<Longrightarrow> toasts (handleDelete e i p s) = toasts s @ [Deletion_Failed]"
  by (simp add: handleDelete_unfold Let_def storage_remove_simps)

lemma documents_page_simps:
  "documents documents_page = [draft_a, draft_b]"
  "blobs documents_page = [''21/intent_draft/a.pdf'', ''21/intent_draft/b.png'']"
  "calls documents_page = []" "toasts documents_page = []" "dm_user documents_page = Some 21"
  by (simp_all add: documents_page_def documents_backend_def example_backend_def
      system.defs document_management.defs)

text \<open>
  C9. \<open>handleDelete\<close> first asks the object store to remove the blob. When that fails
  it is the only call: the deletion of the document record is not attempted, the
  documents table and the blobs are unchanged and the failure is shown. The deletion of
  the record is only issued after an accepted removal, so whenever the documents table
  has changed the blob is gone.
\<close>

theorem handleDelete_blob_first:
  "(\<exists>rest. new_calls s (handleDelete e fileId filePath s) =
       (Storage_remove filePath, accepts e (Storage_remove filePath)) # rest) \<and>
   (\<not> accepts e (Storage_remove filePath) \<longrightarrow>
       new_calls s (handleDelete e fileId filePath s) = [(Storage_remove filePath, False)] \<and>
       documents (handleDelete e fileId filePath s) = documents s \<and>
       blobs (handleDelete e fileId filePath s) = blobs s \<and>
       toasts (handleDelete e fileId filePath s) = toasts s @ [Deletion_Failed]) \<and>
   (accepts e (Storage_remove filePath) \<longrightarrow>
       (\<exists>rest. new_calls s (handleDelete e fileId filePath s) =
          (Storage_remove filePath, True) #
          (Delete_document fileId, accepts e (Delete_document fileId)) # rest)) \<and>
   (documents (handleDelete e fileId filePath s) \<noteq> documents s \<longrightarrow>
       accepts e (Storage_remove filePath) \<and>
       filePath \<notin> set (blobs (handleDelete e fileId filePath s)))"
  by (simp add: new_calls_def handleDelete_calls handleDelete_documents handleDelete_blobs
      handleDelete_toasts_failed)

theorem handleDelete_blob_first_witness:
  "new_calls documents_page
      (handleDelete failing_storage 7 ''21/intent_draft/a.pdf'' documents_page) =
     [(Storage_remove ''21/intent_draft/a.pdf'', False)] \<and>
   documents (handleDelete failing_storage 7 ''21/intent_draft/a.pdf'' documents_page) =
     [draft_a, draft_b] \<and>
   toasts (handleDelete failing_storage 7 ''21/intent_draft/a.pdf'' documents_page) =
     [Deletion_Failed] \<and>
   documents (handleDelete example_env 7 ''21/intent_draft/a.pdf'' documents_page) = [draft_b] \<and>
   blobs (handleDelete example_env 7 ''21/intent_draft/a.pdf'' documents_page) =
     [''21/intent_draft/b.png'']"
proof -
  have f: "\<not> accepts failing_storage (Storage_remove ''21/intent_draft/a.pdf'')"
    by (simp add: failing_storage_def)
  have d: "doc_id draft_a = 7" "doc_id draft_b = 8"
    by (simp_all add: draft_a_def draft_b_def)
  from handleDelete_blob_first [of documents_page failing_storage 7 "''21/intent_draft/a.pdf''"] f
  show ?thesis
    by (simp add: documents_page_simps handleDelete_documents handleDelete_blobs
        example_env_simps d)
qed

section \<open>Properties of the registration of intent\<close>

lemma handleSubmit_unauthenticated:
  "user s = None \<Longrightarrow> handleSubmit e s = toast Authentication_Required s"
  by (simp add: handleSubmit_def)

lemma handleSubmit_invalid:
  assumes "user s = Some uid"
    and "date_ge (Date_parse e (commencement_date (formData s)))
                 (Date_parse e (completion_date (formData s)))"
  shows "handleSubmit e s = toast Invalid_Dates s"
  using assms by (simp add: handleSubmit_def)

lemma handleSubmit_store_error:
  assumes "user s = Some uid"
    and "\<not> date_ge (Date_parse e (commencement_date (formData s)))
                 (Date_parse e (completion_date (formData s)))"
    and "\<not> accepts e (Insert_intent_registration (intent_row (next_id s) uid (formData s)))"
  shows "handleSubmit e s =
     s\<lparr>calls := calls s @ [(Insert_intent_registration (intent_row (next_id s) uid (formData s)), False)],
       console := console s @ [''Error submitting intent registration:''],
       toasts := toasts s @ [Submission_Failed], submitting := False\<rparr>"
  using assms
  by (simp add: handleSubmit_def db_insert_intent_registration_def issue_def Let_def
      toast_def console_error_def)

lemma handleSubmit_accepted:
  assumes "user s = Some uid"
    and "\<not> date_ge (Date_parse e (commencement_date (formData s)))
                 (Date_parse e (completion_date (formData s)))"
    and "accepts e (Insert_intent_registration (intent_row (next_id s) uid (formData s)))"
  shows "handleSubmit e s =
     (let row = intent_row (next_id s) uid (formData s);
          t = after_insert s (Insert_intent_registration row) row;
          t' = (if pendingDocuments s \<noteq> [] then link_phase e (pendingDocuments s) (next_id s) t
                else t)
      in (toast Intent_Registration_Submitted t')\<lparr>formData := empty_form, submitting := False\<rparr>)"
  using assms
  by (simp add: handleSubmit_def db_insert_intent_registration_def issue_def Let_def
      link_phase_def after_insert_def intent_row_def)


lemma created_documents_append:
  "created_documents (xs @ ys) = created_documents xs @ created_documents ys"
  by (induction xs rule: created_documents.induct) simp_all

lemma created_documents_inserts:
  "created_documents (map (\<lambda>r. (Insert_document r, True)) rs) = rs"
  by (induction rs) simp_all

lemma created_documents_deletes:
  "created_documents (map (\<lambda>d. (Delete_document (f d), g d)) ds) = []"
  by (induction ds) simp_all

lemma db_insert_document_simps:
  "toasts (snd (db_insert_document e d s)) = toasts s"
  "blobs (snd (db_insert_document e d s)) = blobs s"
  "intent_registrations (snd (db_insert_document e d s)) = intent_registrations s"
  "system.more (snd (db_insert_document e d s)) = system.more s"
  "calls (snd (db_insert_document e d s)) =
     calls s @ [(Insert_document (d\<lparr>doc_id := next_id s, uploaded_at := now_ms e\<rparr>),
                 accepts e (Insert_document (d\<lparr>doc_id := next_id s, uploaded_at := now_ms e\<rparr>)))]"
  "fst (db_insert_document e d s) =
     (if accepts e (Insert_document (d\<lparr>doc_id := next_id s, uploaded_at := now_ms e\<rparr>))
      then Some (d\<lparr>doc_id := next_id s, uploaded_at := now_ms e\<rparr>) else None)"
  by (simp_all add: db_insert_document_def issue_def Let_def split: bool.splits)

lemma linkDraftsToIntent_frame:
  "toasts (snd (linkDraftsToIntent e ds pid s)) = toasts s \<and>
   blobs (snd (linkDraftsToIntent e ds pid s)) = blobs s \<and>
   intent_registrations (snd (linkDraftsToIntent e ds pid s)) = intent_registrations s \<and>
   system.more (snd (linkDraftsToIntent e ds pid s)) = system.more s"
proof (induction ds arbitrary: s)
  case Nil
  then show ?case by simp
next
  case (Cons d ds)
  obtain r s1 where r: "db_insert_document e (d\<lparr>intent_registration_id := Some pid\<rparr>) s = (r, s1)"
    by (cases "db_insert_document e (d\<lparr>intent_registration_id := Some pid\<rparr>) s")
  from db_insert_document_simps(1-4) [of e "d\<lparr>intent_registration_id := Some pid\<rparr>" s] r
  have f: "toasts s1 = toasts s" "blobs s1 = blobs s"
    "intent_registrations s1 = intent_registrations s" "system.more s1 = system.more s"
    by simp_all
  show ?case
  proof (cases r)
    case None
    with r f Cons.IH [of "console_error ''Error linking draft:'' s1"] show ?thesis
      by (simp add: console_error_def)
  next
    case (Some row)
    with r f Cons.IH [of s1] show ?thesis
      by (simp add: case_prod_beta)
  qed
qed

lemma linkDraftsToIntent_calls:
  "\<exists>cs. calls (snd (linkDraftsToIntent e ds pid s)) = calls s @ cs \<and>
        created_documents cs = fst (linkDraftsToIntent e ds pid s) \<and>
        list_all (\<lambda>c. \<exists>r. fst c = Insert_document r) cs"
proof (induction ds arbitrary: s)
  case Nil
  then show ?case by simp
next
  case (Cons d ds)
  let ?row = "d\<lparr>intent_registration_id := Some pid, doc_id := next_id s, uploaded_at := now_ms e\<rparr>"
  obtain r s1 where r: "db_insert_document e (d\<lparr>intent_registration_id := Some pid\<rparr>) s = (r, s1)"
    by (cases "db_insert_document e (d\<lparr>intent_registration_id := Some pid\<rparr>) s")
  from db_insert_document_simps(5,6) [of e "d\<lparr>intent_registration_id := Some pid\<rparr>" s] r
  have c: "calls s1 = calls s @ [(Insert_document ?row, accepts e (Insert_document ?row))]"
    and v: "r = (if accepts e (Insert_document ?row) then Some ?row else None)"
    by simp_all
  show ?case
  proof (cases "accepts e (Insert_document ?row)")
    case False
    from Cons.IH [of "console_error ''Error linking draft:'' s1"]
    obtain cs where cs: "calls (snd (linkDraftsToIntent e ds pid (console_error ''Error linking draft:'' s1))) = calls s1 @ cs"
      "created_documents cs = fst (linkDraftsToIntent e ds pid (console_error ''Error linking draft:'' s1))"
      "list_all (\<lambda>c. \<exists>r. fst c = Insert_document r) cs"
      by auto
    show ?thesis
      using r v False c cs
      by (intro exI [of _ "(Insert_document ?row, False) # cs"]) simp
  next
    case True
    from Cons.IH [of s1]
    obtain cs where cs: "calls (snd (linkDraftsToIntent e ds pid s1)) = calls s1 @ cs"
      "created_documents cs = fst (linkDraftsToIntent e ds pid s1)"
      "list_all (\<lambda>c. \<exists>r. fst c = Insert_document r) cs"
      by auto
    show ?thesis
      using r v True c cs
      by (intro exI [of _ "(Insert_document ?row, True) # cs"]) (simp add: case_prod_beta)
  qed
qed

lemma deleteDocumentRecordOnly_simps:
  "toasts (deleteDocumentRecordOnly e i s) = toasts s"
  "blobs (deleteDocumentRecordOnly e i s) = blobs s"
  "intent_registrations (deleteDocumentRecordOnly e i s) = intent_registrations s"
  "system.more (deleteDocumentRecordOnly e i s) = system.more s"
  "calls (deleteDocumentRecordOnly e i s) =
     calls s @ [(Delete_document i, accepts e (Delete_document i))]"
  "documents (deleteDocumentRecordOnly e i s) =
     (if accepts e (Delete_document i) then filter (\<lambda>d. doc_id d \<noteq> i) (documents s)
      else documents s)"
  "console (deleteDocumentRecordOnly e i s) =
     console s @ (if accepts e (Delete_document i) then []
                  else [''Error deleting document record:''])"
  "history (deleteDocumentRecordOnly e i s) =
     history s @ (if accepts e (Delete_document i)
                  then [filter (\<lambda>d. doc_id d \<noteq> i) (documents s)] else [])"
  by (simp_all add: deleteDocumentRecordOnly_def db_delete_document_def issue_def Let_def
      console_error_def split: bool.splits)

lemma fold_delete_frame:
  "toasts (fold (\<lambda>d. deleteDocumentRecordOnly e (doc_id d)) ds s) = toasts s \<and>
   blobs (fold (\<lambda>d. deleteDocumentRecordOnly e (doc_id d)) ds s) = blobs s \<and>
   intent_registrations (fold (\<lambda>d. deleteDocumentRecordOnly e (doc_id d)) ds s) =
     intent_registrations s \<and>
   system.more (fold (\<lambda>d. deleteDocumentRecordOnly e (doc_id d)) ds s) = system.more s"
  by (induction ds arbitrary: s) (simp_all add: deleteDocumentRecordOnly_simps)

lemma fold_delete_calls:
  "calls (fold (\<lambda>d. deleteDocumentRecordOnly e (doc_id d)) ds s) =
     calls s @ map (\<lambda>d. (Delete_document (doc_id d), accepts e (Delete_document (doc_id d)))) ds"
  by (induction ds arbitrary: s) (simp_all add: deleteDocumentRecordOnly_simps)

lemma fold_delete_documents:
  "documents (fold (\<lambda>d. deleteDocumentRecordOnly e (doc_id d)) ds s) =
     filter (\<lambda>x. \<not> deleted e ds x) (documents s)"
proof (induction ds arbitrary: s)
  case Nil
  then show ?case by (simp add: deleted_def)
next
  case (Cons d ds)
  show ?case
    by (auto simp: Cons.IH deleteDocumentRecordOnly_simps deleted_def intro: filter_cong)
qed

lemma fold_delete_console_mono:
  "x \<in> set (console t) \<Longrightarrow>
   x \<in> set (console (fold (\<lambda>d. deleteDocumentRecordOnly e (doc_id d)) xs t))"
  by (induction xs arbitrary: t) (simp_all add: deleteDocumentRecordOnly_simps)

lemma fold_delete_console:
  "d \<in> set ds \<Longrightarrow> \<not> accepts e (Delete_document (doc_id d)) \<Longrightarrow>
   ''Error deleting document record:'' \<in>
     set (console (fold (\<lambda>d. deleteDocumentRecordOnly e (doc_id d)) ds s))"
proof (induction ds arbitrary: s)
  case Nil
  then show ?case by simp
next
  case (Cons a ds)
  show ?case
  proof (cases "d = a")
    case True
    with Cons.prems have "''Error deleting document record:'' \<in>
        set (console (deleteDocumentRecordOnly e (doc_id a) s))"
      by (simp add: deleteDocumentRecordOnly_simps)
    then show ?thesis by (simp add: fold_delete_console_mono)
  next
    case False
    with Cons show ?thesis by simp
  qed
qed


lemma refs_append: "refs k (xs @ ys) = refs k xs + refs k ys"
  by (simp add: refs_def)

lemma refs_filter_le: "refs k (filter P xs) \<le> refs k xs"
  unfolding refs_def by (induction xs) auto

lemma refs_take_le: "refs k (take j xs) \<le> refs k xs"
proof -
  have "refs k xs = refs k (take j xs) + refs k (drop j xs)"
    by (simp add: refs_append [symmetric])
  then show ?thesis by simp
qed

lemma refs_distinct_one:
  "distinct (map file_path xs) \<Longrightarrow> d \<in> set xs \<Longrightarrow> refs (file_path d) xs = 1"
proof (induction xs)
  case Nil
  then show ?case by simp
next
  case (Cons x xs)
  show ?case
  proof (cases "d = x")
    case True
    have "file_path x \<notin> file_path ` set xs"
      using Cons.prems(1) by simp
    then have "\<forall>y\<in>set xs. file_path y \<noteq> file_path x"
      by (metis imageI)
    then have "filter (\<lambda>y. file_path y = file_path x) xs = []"
      by (simp add: filter_empty_conv)
    with True show ?thesis by (simp add: refs_def)
  next
    case False
    with Cons.prems have "d \<in> set xs" by simp
    moreover from this Cons.prems(1) have "file_path x \<noteq> file_path d" by auto
    ultimately show ?thesis using Cons by (simp add: refs_def)
  qed
qed

lemma refs_map_file_path:
  "map file_path xs = map file_path ys \<Longrightarrow> refs k xs = refs k ys"
proof (induction xs arbitrary: ys)
  case Nil
  then show ?case by (simp add: refs_def)
next
  case (Cons x xs)
  then obtain y ys' where ys: "ys = y # ys'" "file_path x = file_path y"
    "map file_path xs = map file_path ys'"
    by (cases ys) auto
  from Cons.IH [OF ys(3)] ys(1,2) show ?case by (simp add: refs_def)
qed

lemma linked_rows_file_path: "map file_path (linked_rows e pid n ds) = map file_path ds"
  by (induction ds arbitrary: n) (simp_all add: linked_row_def)

lemma linked_rows_length: "length (linked_rows e pid n ds) = length ds"
  by (induction ds arbitrary: n) simp_all

lemma linked_rows_ids: "r \<in> set (linked_rows e pid n ds) \<Longrightarrow> n \<le> doc_id r"
proof (induction ds arbitrary: n)
  case Nil
  then show ?case by simp
next
  case (Cons d ds)
  from Cons.prems consider "r = linked_row e pid n d" | "r \<in> set (linked_rows e pid (Suc n) ds)"
    by auto
  then show ?case
  proof cases
    case 1
    then show ?thesis by (simp add: linked_row_def)
  next
    case 2
    from Cons.IH [OF this] show ?thesis by simp
  qed
qed

lemma linked_rows_nth:
  "k < length ds \<Longrightarrow> linked_rows e pid n ds ! k = linked_row e pid (n + k) (ds ! k)"
proof (induction ds arbitrary: n k)
  case Nil
  then show ?case by simp
next
  case (Cons d ds)
  then show ?case by (cases k) simp_all
qed

lemma linkDraftsToIntent_accepted:
  assumes "\<forall>r. accepts e (Insert_document r)"
  shows "fst (linkDraftsToIntent e ds pid s) = linked_rows e pid (next_id s) ds \<and>
         documents (snd (linkDraftsToIntent e ds pid s)) =
           documents s @ linked_rows e pid (next_id s) ds \<and>
         calls (snd (linkDraftsToIntent e ds pid s)) =
           calls s @ map (\<lambda>r. (Insert_document r, True)) (linked_rows e pid (next_id s) ds) \<and>
         (\<exists>hs. history (snd (linkDraftsToIntent e ds pid s)) = history s @ hs \<and>
               (\<forall>h\<in>set hs. \<exists>k. h = documents s @ take k (linked_rows e pid (next_id s) ds)))"
proof (induction ds arbitrary: s)
  case Nil
  then show ?case by simp
next
  case (Cons d ds)
  let ?row = "linked_row e pid (next_id s) d"
  let ?s1 = "s\<lparr>calls := calls s @ [(Insert_document ?row, True)],
               documents := documents s @ [?row], next_id := Suc (next_id s),
               history := history s @ [documents s @ [?row]]\<rparr>"
  let ?rows = "linked_rows e pid (Suc (next_id s)) ds"
  have ins: "db_insert_document e (d\<lparr>intent_registration_id := Some pid\<rparr>) s = (Some ?row, ?s1)"
    using assms by (simp add: db_insert_document_def issue_def Let_def linked_row_def)
  from Cons.IH [of ?s1] obtain hs where
    ih: "fst (linkDraftsToIntent e ds pid ?s1) = ?rows"
      "documents (snd (linkDraftsToIntent e ds pid ?s1)) = (documents s @ [?row]) @ ?rows"
      "calls (snd (linkDraftsToIntent e ds pid ?s1)) =
         (calls s @ [(Insert_document ?row, True)]) @ map (\<lambda>r. (Insert_document r, True)) ?rows"
      "history (snd (linkDraftsToIntent e ds pid ?s1)) = (history s @ [documents s @ [?row]]) @ hs"
      "\<forall>h\<in>set hs. \<exists>k. h = (documents s @ [?row]) @ take k ?rows"
    by auto
  have h1: "\<exists>k. documents s @ [?row] = documents s @ take k (?row # ?rows)"
    by (rule exI [of _ 1]) simp
  have h2: "\<exists>k. h = documents s @ take k (?row # ?rows)" if "h \<in> set hs" for h
  proof -
    from ih(5) that obtain k where "h = (documents s @ [?row]) @ take k ?rows" by auto
    then have "h = documents s @ take (Suc k) (?row # ?rows)" by simp
    then show ?thesis by blast
  qed
  have "history (snd (linkDraftsToIntent e (d # ds) pid s)) =
          history s @ ((documents s @ [?row]) # hs)"
    using ins ih(4) by (simp add: case_prod_beta)
  moreover have "\<forall>h\<in>set ((documents s @ [?row]) # hs).
                   \<exists>k. h = documents s @ take k (linked_rows e pid (next_id s) (d # ds))"
    using h1 h2 by auto
  ultimately have hist: "\<exists>hs. history (snd (linkDraftsToIntent e (d # ds) pid s)) = history s @ hs \<and>
       (\<forall>h\<in>set hs. \<exists>k. h = documents s @ take k (linked_rows e pid (next_id s) (d # ds)))"
    by blast
  show ?case
    using ins ih(1-3) hist by (simp add: case_prod_beta)
qed

lemma fold_delete_history:
  "\<exists>hs. history (fold (\<lambda>d. deleteDocumentRecordOnly e (doc_id d)) ds s) = history s @ hs \<and>
        (\<forall>h\<in>set hs. \<exists>k. h = filter (\<lambda>x. \<not> deleted e (take k ds) x) (documents s))"
proof (induction ds arbitrary: s)
  case Nil
  then show ?case by simp
next
  case (Cons d ds)
  let ?s1 = "deleteDocumentRecordOnly e (doc_id d) s"
  have d1: "documents ?s1 = filter (\<lambda>x. \<not> deleted e [d] x) (documents s)"
    by (auto simp: deleteDocumentRecordOnly_simps deleted_def intro: filter_cong)
  from Cons.IH [of ?s1] obtain hs where
    ih: "history (fold (\<lambda>d. deleteDocumentRecordOnly e (doc_id d)) ds ?s1) = history ?s1 @ hs"
      "\<forall>h\<in>set hs. \<exists>k. h = filter (\<lambda>x. \<not> deleted e (take k ds) x) (documents ?s1)"
    by auto
  have step: "filter (\<lambda>x. \<not> deleted e (take k ds) x) (documents ?s1) =
              filter (\<lambda>x. \<not> deleted e (take (Suc k) (d # ds)) x) (documents s)" for k
    unfolding d1 by (auto simp: deleted_def intro: filter_cong)
  have h2: "\<exists>k. h = filter (\<lambda>x. \<not> deleted e (take k (d # ds)) x) (documents s)"
    if "h \<in> set hs" for h
  proof -
    from ih(2) that obtain k where "h = filter (\<lambda>x. \<not> deleted e (take k ds) x) (documents ?s1)"
      by auto
    with step [of k] show ?thesis by blast
  qed
  let ?new = "if accepts e (Delete_document (doc_id d))
              then [filter (\<lambda>x. doc_id x \<noteq> doc_id d) (documents s)] else []"
  have h1: "\<forall>h\<in>set ?new. \<exists>k. h = filter (\<lambda>x. \<not> deleted e (take k (d # ds)) x) (documents s)"
  proof (cases "accepts e (Delete_document (doc_id d))")
    case True
    have "filter (\<lambda>x. doc_id x \<noteq> doc_id d) (documents s) =
          filter (\<lambda>x. \<not> deleted e (take 1 (d # ds)) x) (documents s)"
      using True by (auto simp: deleted_def intro: filter_cong)
    then have "\<exists>k. filter (\<lambda>x. doc_id x \<noteq> doc_id d) (documents s) =
          filter (\<lambda>x. \<not> deleted e (take k (d # ds)) x) (documents s)"
      by (rule exI [of _ 1])
    with True show ?thesis by simp
  next
    case False
    then show ?thesis by simp
  qed
  have "history (fold (\<lambda>d. deleteDocumentRecordOnly e (doc_id d)) (d # ds) s) =
          history s @ (?new @ hs)"
    using ih(1) by (simp add: deleteDocumentRecordOnly_simps)
  moreover have "\<forall>h\<in>set (?new @ hs).
       \<exists>k. h = filter (\<lambda>x. \<not> deleted e (take k (d # ds)) x) (documents s)"
    using h1 h2 by auto
  ultimately show ?case by blast
qed


lemma linkDraftsToIntent_documents_mono:
  "x \<in> set (documents s) \<Longrightarrow> x \<in> set (documents (snd (linkDraftsToIntent e ds pid s)))"
proof (induction ds arbitrary: s)
  case Nil
  then show ?case by simp
next
  case (Cons d ds)
  obtain r s1 where r: "db_insert_document e (d\<lparr>intent_registration_id := Some pid\<rparr>) s = (r, s1)"
    by (cases "db_insert_document e (d\<lparr>intent_registration_id := Some pid\<rparr>) s")
  then have "x \<in> set (documents s1)"
    using Cons.prems
    by (auto simp: db_insert_document_def issue_def Let_def split: bool.splits)
  then have "x \<in> set (documents (snd (linkDraftsToIntent e ds pid s1)))"
    "x \<in> set (documents (snd (linkDraftsToIntent e ds pid (console_error ''Error linking draft:'' s1))))"
    by (simp_all add: Cons.IH)
  with r show ?case by (cases r) (simp_all add: case_prod_beta)
qed

lemma after_insert_simps:
  "calls (after_insert s c row) = calls s @ [(c, True)]"
  "documents (after_insert s c row) = documents s"
  "history (after_insert s c row) = history s"
  "next_id (after_insert s c row) = Suc (next_id s)"
  "toasts (after_insert s c row) = toasts s"
  "blobs (after_insert s c row) = blobs s"
  "console (after_insert s c row) = console s"
  "intent_registrations (after_insert s c row) = intent_registrations s @ [row]"
  by (simp_all add: after_insert_def)

lemma link_phase_simps:
  "toasts (link_phase e ps pid t) =
     toasts t @ [Documents_Linked (length (fst (linkDraftsToIntent e ps pid t)))]"
  "blobs (link_phase e ps pid t) = blobs t"
  "intent_registrations (link_phase e ps pid t) = intent_registrations t"
  "calls (link_phase e ps pid t) =
     calls (snd (linkDraftsToIntent e ps pid t)) @
     map (\<lambda>d. (Delete_document (doc_id d), accepts e (Delete_document (doc_id d)))) ps"
  "documents (link_phase e ps pid t) =
     filter (\<lambda>x. \<not> deleted e ps x) (documents (snd (linkDraftsToIntent e ps pid t)))"
  "console (link_phase e ps pid t) =
     console (fold (\<lambda>d. deleteDocumentRecordOnly e (doc_id d)) ps
                (snd (linkDraftsToIntent e ps pid t)))"
  "history (link_phase e ps pid t) =
     history (fold (\<lambda>d. deleteDocumentRecordOnly e (doc_id d)) ps
                (snd (linkDraftsToIntent e ps pid t)))"
  by (simp_all add: link_phase_def case_prod_beta fold_delete_frame fold_delete_calls
      fold_delete_documents linkDraftsToIntent_frame)

lemma handleSubmit_created:
  assumes "user s = Some uid"
    and "\<not> date_ge (Date_parse e (commencement_date (formData s)))
                 (Date_parse e (completion_date (formData s)))"
    and "accepts e (Insert_intent_registration (intent_row (next_id s) uid (formData s)))"
    and "\<forall>r. accepts e (Insert_document r)"
  shows "created_documents (new_calls s (handleSubmit e s)) =
           linked_rows e (next_id s) (Suc (next_id s)) (pendingDocuments s)"
proof -
  let ?row = "intent_row (next_id s) uid (formData s)"
  let ?t = "after_insert s (Insert_intent_registration ?row) ?row"
  let ?ps = "pendingDocuments s"
  let ?rows = "linked_rows e (next_id s) (Suc (next_id s)) ?ps"
  note lk = linkDraftsToIntent_accepted [OF assms(4), of ?ps "next_id s" ?t]
  have hs: "handleSubmit e s =
      (toast Intent_Registration_Submitted
         (if ?ps \<noteq> [] then link_phase e ?ps (next_id s) ?t else ?t))
        \<lparr>formData := empty_form, submitting := False\<rparr>"
    using handleSubmit_accepted [OF assms(1-3)] by (simp add: Let_def)
  show ?thesis
  proof (cases "?ps = []")
    case True
    then show ?thesis by (simp add: hs new_calls_def after_insert_simps)
  next
    case False
    then have "new_calls s (handleSubmit e s) =
        (Insert_intent_registration ?row, True) # map (\<lambda>r. (Insert_document r, True)) ?rows @
        map (\<lambda>d. (Delete_document (doc_id d), accepts e (Delete_document (doc_id d)))) ?ps"
      using lk by (simp add: hs new_calls_def link_phase_simps after_insert_simps)
    then show ?thesis
      by (simp add: created_documents_append created_documents_deletes
          created_documents_inserts)
  qed
qed

lemma intent_page_simps:
  "user (intent_page f ps) = Some 21"
  "formData (intent_page f ps) = f"
  "pendingDocuments (intent_page f ps) = ps"
  "documents (intent_page f ps) = [draft_a, draft_b]"
  "blobs (intent_page f ps) = [''21/intent_draft/a.pdf'', ''21/intent_draft/b.png'']"
  "next_id (intent_page f ps) = 100"
  "calls (intent_page f ps) = []"
  "toasts (intent_page f ps) = []"
  "history (intent_page f ps) = []"
  "console (intent_page f ps) = []"
  "intent_registrations (intent_page f ps) = []"
  by (simp_all add: intent_page_def documents_backend_def example_backend_def
      system.defs intent_registration_new.defs)

lemma sample_form_simps:
  "commencement_date sample_form = ''2025-01-01''"
  "completion_date sample_form = ''2025-02-01''"
  by (simp_all add: sample_form_def)

lemma sample_dates:
  "Date_parse example_env ''2025-01-01'' = Some 0"
  "Date_parse example_env ''2025-02-01'' = Some 31"
  "Date_parse rejecting_store ''2025-01-01'' = Some 0"
  "Date_parse rejecting_store ''2025-02-01'' = Some 31"
  "Date_parse failing_cleanup ''2025-01-01'' = Some 0"
  "Date_parse failing_cleanup ''2025-02-01'' = Some 31"
  by (simp_all add: example_env_def rejecting_store_def failing_cleanup_def)

lemma sample_guard:
  "\<not> date_ge (Date_parse example_env (commencement_date (formData (intent_page sample_form ps))))
       (Date_parse example_env (completion_date (formData (intent_page sample_form ps))))"
  "\<not> date_ge (Date_parse rejecting_store (commencement_date (formData (intent_page sample_form ps))))
       (Date_parse rejecting_store (completion_date (formData (intent_page sample_form ps))))"
  "\<not> date_ge (Date_parse failing_cleanup (commencement_date (formData (intent_page sample_form ps))))
       (Date_parse failing_cleanup (completion_date (formData (intent_page sample_form ps))))"
  by (simp_all add: intent_page_simps sample_form_simps sample_dates date_ge_def)

lemma draft_simps:
  "doc_id draft_a = 7" "doc_id draft_b = 8"
  "file_path draft_a = ''21/intent_draft/a.pdf''" "file_path draft_b = ''21/intent_draft/b.png''"
  "draft_a \<noteq> draft_b"
  by (simp_all add: draft_a_def draft_b_def)

lemma sample_accepts:
  "accepts failing_cleanup (Insert_intent_registration x)"
  "accepts failing_cleanup (Insert_document r)"
  "\<not> accepts failing_cleanup (Delete_document 7)"
  "accepts failing_cleanup (Delete_document 8)"
  by (simp_all add: failing_cleanup_def)

lemma handleSubmit_signed_in:
  assumes "user s = Some uid"
    and "Date_parse e (commencement_date (formData s)) = Some c"
    and "Date_parse e (completion_date (formData s)) = Some d"
  shows "(\<not> c < d \<longrightarrow>
            handleSubmit e s = toast Invalid_Dates s \<and>
            calls (handleSubmit e s) = calls s \<and>
            intent_registrations (handleSubmit e s) = intent_registrations s) \<and>
         (c < d \<longrightarrow>
            (\<exists>rest. new_calls s (handleSubmit e s) =
               (Insert_intent_registration (intent_row (next_id s) uid (formData s)),
                accepts e (Insert_intent_registration (intent_row (next_id s) uid (formData s))))
               # rest) \<and>
            (accepts e (Insert_intent_registration (intent_row (next_id s) uid (formData s))) \<longrightarrow>
               intent_registrations (handleSubmit e s) =
                 intent_registrations s @ [intent_row (next_id s) uid (formData s)] \<and>
               last (toasts (handleSubmit e s)) = Intent_Registration_Submitted) \<and>
            (\<not> accepts e (Insert_intent_registration (intent_row (next_id s) uid (formData s))) \<longrightarrow>
               intent_registrations (handleSubmit e s) = intent_registrations s \<and>
               toasts (handleSubmit e s) = toasts s @ [Submission_Failed]))"
proof (cases "c < d")
  case False
  then have "date_ge (Date_parse e (commencement_date (formData s)))
                     (Date_parse e (completion_date (formData s)))"
    using assms(2,3) by (simp add: date_ge_def)
  from handleSubmit_invalid [OF assms(1) this] False show ?thesis by simp
next
  case True
  let ?row = "intent_row (next_id s) uid (formData s)"
  let ?t = "after_insert s (Insert_intent_registration ?row) ?row"
  let ?ps = "pendingDocuments s"
  from True have g: "\<not> date_ge (Date_parse e (commencement_date (formData s)))
                     (Date_parse e (completion_date (formData s)))"
    using assms(2,3) by (simp add: date_ge_def)
  show ?thesis
  proof (cases "accepts e (Insert_intent_registration ?row)")
    case False
    from handleSubmit_store_error [OF assms(1) g False] True False show ?thesis
      by (simp add: new_calls_def)
  next
    case acc: True
    have hs: "handleSubmit e s =
        (toast Intent_Registration_Submitted
           (if ?ps \<noteq> [] then link_phase e ?ps (next_id s) ?t else ?t))
          \<lparr>formData := empty_form, submitting := False\<rparr>"
      using handleSubmit_accepted [OF assms(1) g acc] by (simp add: Let_def)
    obtain cs where cs: "calls (snd (linkDraftsToIntent e ?ps (next_id s) ?t)) = calls ?t @ cs"
      using linkDraftsToIntent_calls [of e ?ps "next_id s" ?t] by auto
    have "\<exists>rest. new_calls s (handleSubmit e s) = (Insert_intent_registration ?row, True) # rest"
      by (simp add: hs new_calls_def link_phase_simps cs after_insert_simps)
    moreover have "intent_registrations (handleSubmit e s) = intent_registrations s @ [?row]"
      by (simp add: hs link_phase_simps after_insert_simps)
    moreover have "last (toasts (handleSubmit e s)) = Intent_Registration_Submitted"
      by (simp add: hs)
    ultimately show ?thesis using True acc by simp
  qed
qed

text \<open>
  C1, as the code has it. Without a signed-in user \<open>handleSubmit\<close> only asks for
  authentication. For a signed-in user and two date fields that are valid dates: when the
  completion date is not strictly later than the commencement date, \<open>handleSubmit\<close>
  only shows the invalid-dates notification and issues no call; otherwise its first call
  is the insert of the row made from the form, and the submission succeeds, with exactly
  that one new record and the success notification last, if and only if the store accepts
  the insert; when the store rejects it no record is created and the failure of the
  submission is shown.
\<close>

theorem handleSubmit_date_range:
  assumes "Date_parse e (commencement_date (formData s)) = Some c"
    and "Date_parse e (completion_date (formData s)) = Some d"
  shows "(user s = None \<longrightarrow> handleSubmit e s = toast Authentication_Required s) \<and>
         (\<forall>uid. user s = Some uid \<longrightarrow>
            (\<not> c < d \<longrightarrow>
               handleSubmit e s = toast Invalid_Dates s \<and>
               calls (handleSubmit e s) = calls s \<and>
               intent_registrations (handleSubmit e s) = intent_registrations s) \<and>
            (c < d \<longrightarrow>
               (\<exists>rest. new_calls s (handleSubmit e s) =
                  (Insert_intent_registration (intent_row (next_id s) uid (formData s)),
                   accepts e (Insert_intent_registration (intent_row (next_id s) uid (formData s))))
                  # rest) \<and>
               (accepts e (Insert_intent_registration (intent_row (next_id s) uid (formData s))) \<longrightarrow>
                  intent_registrations (handleSubmit e s) =
                    intent_registrations s @ [intent_row (next_id s) uid (formData s)] \<and>
                  last (toasts (handleSubmit e s)) = Intent_Registration_Submitted) \<and>
               (\<not> accepts e (Insert_intent_registration (intent_row (next_id s) uid (formData s))) \<longrightarrow>
                  intent_registrations (handleSubmit e s) = intent_registrations s \<and>
                  toasts (handleSubmit e s) = toasts s @ [Submission_Failed])))"
proof (rule conjI)
  show "user s = None \<longrightarrow> handleSubmit e s = toast Authentication_Required s"
    by (simp add: handleSubmit_unauthenticated)
qed (rule allI, rule impI, rule handleSubmit_signed_in, assumption, rule assms(1), rule assms(2))

text \<open>
  The claim as stated fails where the store rejects the insert, and where nobody is
  signed in: the completion date is strictly later than the commencement date, and no
  record is created.
\<close>

theorem handleSubmit_date_range_counterexample:
  "user (intent_page sample_form []) = Some 21 \<and>
   Date_parse rejecting_store (commencement_date (formData (intent_page sample_form []))) = Some 0 \<and>
   Date_parse rejecting_store (completion_date (formData (intent_page sample_form []))) = Some 31 \<and>
   (0 :: int) < 31 \<and>
   intent_registrations (handleSubmit rejecting_store (intent_page sample_form [])) = [] \<and>
   toasts (handleSubmit rejecting_store (intent_page sample_form [])) = [Submission_Failed] \<and>
   intent_registrations
     (handleSubmit example_env ((intent_page sample_form [])\<lparr>user := None\<rparr>)) = [] \<and>
   toasts (handleSubmit example_env ((intent_page sample_form [])\<lparr>user := None\<rparr>)) =
     [Authentication_Required]"
proof -
  have r: "\<not> accepts rejecting_store (Insert_intent_registration x)" for x
    by (simp add: rejecting_store_def)
  have n: "user ((intent_page sample_form [])\<lparr>user := None\<rparr>) = None"
    by simp
  show ?thesis
    by (simp add: handleSubmit_store_error [OF intent_page_simps(1) sample_guard(2) r]
        handleSubmit_unauthenticated [OF n]
        intent_page_simps sample_form_simps sample_dates)
qed

theorem handleSubmit_date_range_witness:
  "intent_registrations (handleSubmit example_env (intent_page sample_form [])) =
     [intent_row 100 21 sample_form] \<and>
   last (toasts (handleSubmit example_env (intent_page sample_form []))) =
     Intent_Registration_Submitted \<and>
   handleSubmit example_env
      (intent_page (sample_form\<lparr>completion_date := ''2025-01-01''\<rparr>) []) =
     toast Invalid_Dates (intent_page (sample_form\<lparr>completion_date := ''2025-01-01''\<rparr>) [])"
proof -
  let ?f = "sample_form\<lparr>completion_date := ''2025-01-01''\<rparr>"
  have d1: "Date_parse example_env (commencement_date (formData (intent_page sample_form []))) = Some 0"
    "Date_parse example_env (completion_date (formData (intent_page sample_form []))) = Some 31"
    by (simp_all add: intent_page_simps sample_form_simps sample_dates)
  have d2: "Date_parse example_env (commencement_date (formData (intent_page ?f []))) = Some 0"
    "Date_parse example_env (completion_date (formData (intent_page ?f []))) = Some 0"
    by (simp_all add: intent_page_simps sample_form_simps sample_dates)
  from handleSubmit_date_range [OF d1] handleSubmit_date_range [OF d2]
  show ?thesis
    by (simp add: example_env_simps intent_page_simps)
qed


text \<open>
  C2, as the code has it. On a successful submission in which the store accepts every
  linking record, from a documents table in which every storage key is referenced once,
  the pending drafts are rows of the table and the ids of the table lie below the next
  id: after each write of the linking, the storage key of every pending draft is
  referenced by at least one and at most two document records; the blobs are unchanged;
  the calls are the insert of the intent, then one insert per draft, then one deletion
  per draft, so every linking record is created before any draft record is deleted; and
  once the deletion of a draft is accepted exactly one record references its storage key.
\<close>

theorem linking_keeps_blob_referenced:
  assumes "user s = Some uid"
    and "\<not> date_ge (Date_parse e (commencement_date (formData s)))
                 (Date_parse e (completion_date (formData s)))"
    and "accepts e (Insert_intent_registration (intent_row (next_id s) uid (formData s)))"
    and "\<forall>r. accepts e (Insert_document r)"
    and "set (pendingDocuments s) \<subseteq> set (documents s)"
    and "distinct (pendingDocuments s)"
    and "distinct (map file_path (documents s))"
    and "\<forall>x\<in>set (documents s). doc_id x < next_id s"
    and "d \<in> set (pendingDocuments s)"
  shows "(\<forall>h\<in>set (drop (length (history s)) (history (handleSubmit e s))).
            1 \<le> refs (file_path d) h \<and> refs (file_path d) h \<le> 2) \<and>
         blobs (handleSubmit e s) = blobs s \<and>
         map fst (new_calls s (handleSubmit e s)) =
           Insert_intent_registration (intent_row (next_id s) uid (formData s)) #
           map Insert_document (linked_rows e (next_id s) (Suc (next_id s)) (pendingDocuments s)) @
           map (\<lambda>x. Delete_document (doc_id x)) (pendingDocuments s) \<and>
         (accepts e (Delete_document (doc_id d)) \<longrightarrow>
            refs (file_path d) (documents (handleSubmit e s)) = 1)"
proof -
  let ?row = "intent_row (next_id s) uid (formData s)"
  let ?t = "after_insert s (Insert_intent_registration ?row) ?row"
  let ?ps = "pendingDocuments s"
  let ?rows = "linked_rows e (next_id s) (Suc (next_id s)) ?ps"
  let ?lk = "linkDraftsToIntent e ?ps (next_id s) ?t"
  let ?k = "file_path d"
  from assms(9) have ne: "?ps \<noteq> []" by auto
  have hs: "handleSubmit e s =
      (toast Intent_Registration_Submitted (link_phase e ?ps (next_id s) ?t))
        \<lparr>formData := empty_form, submitting := False\<rparr>"
    using handleSubmit_accepted [OF assms(1-3)] ne by (simp add: Let_def)
  from linkDraftsToIntent_accepted [OF assms(4), of ?ps "next_id s" ?t]
  obtain hs1 where lk:
    "documents (snd ?lk) = documents s @ ?rows"
    "calls (snd ?lk) = calls ?t @ map (\<lambda>r. (Insert_document r, True)) ?rows"
    "history (snd ?lk) = history s @ hs1"
    "\<forall>h\<in>set hs1. \<exists>j. h = documents s @ take j ?rows"
    by (auto simp: after_insert_simps)
  from fold_delete_history [of e ?ps "snd ?lk"]
  obtain hs2 where dl:
    "history (fold (\<lambda>d. deleteDocumentRecordOnly e (doc_id d)) ?ps (snd ?lk)) =
       history (snd ?lk) @ hs2"
    "\<forall>h\<in>set hs2. \<exists>j. h = filter (\<lambda>x. \<not> deleted e (take j ?ps) x) (documents (snd ?lk))"
    by auto
  have hist: "drop (length (history s)) (history (handleSubmit e s)) = hs1 @ hs2"
    by (simp add: hs link_phase_simps dl(1) lk(3))
  \<comment> \<open>the draft is the one record of the table at its storage key, and so is its linked row\<close>
  have d_in: "d \<in> set (documents s)" using assms(5,9) by auto
  have one_doc: "refs ?k (documents s) = 1"
    using assms(7) d_in by (rule refs_distinct_one)
  have "inj_on file_path (set (documents s))"
    using assms(7) by (simp add: distinct_map)
  then have inj: "inj_on file_path (set ?ps)"
    using assms(5) by (rule inj_on_subset)
  then have "distinct (map file_path ?ps)"
    using assms(6) by (simp add: distinct_map)
  then have "refs ?k ?ps = 1"
    using assms(9) by (rule refs_distinct_one)
  then have one_row: "refs ?k ?rows = 1"
    using refs_map_file_path [OF linked_rows_file_path, of ?k e "next_id s" "Suc (next_id s)" ?ps]
    by simp
  \<comment> \<open>a deletion by the id of a draft never removes a linked row\<close>
  have keep: "filter (\<lambda>x. \<not> deleted e qs x) ?rows = ?rows" if "set qs \<subseteq> set ?ps" for qs
  proof -
    have "\<not> deleted e qs r" if r: "r \<in> set ?rows" for r
    proof
      assume "deleted e qs r"
      then obtain q where q: "q \<in> set qs" "doc_id q = doc_id r"
        by (auto simp: deleted_def)
      with \<open>set qs \<subseteq> set ?ps\<close> assms(5) have "q \<in> set (documents s)" by auto
      with assms(8) have "doc_id q < next_id s" by auto
      moreover from linked_rows_ids [OF r] have "Suc (next_id s) \<le> doc_id r" .
      ultimately show False using q(2) by simp
    qed
    then show ?thesis by (simp add: filter_id_conv)
  qed
  have b1: "1 \<le> refs ?k h \<and> refs ?k h \<le> 2" if "h \<in> set hs1" for h
  proof -
    from lk(4) that obtain j where "h = documents s @ take j ?rows" by auto
    then have "refs ?k h = 1 + refs ?k (take j ?rows)"
      by (simp add: refs_append one_doc)
    moreover have "refs ?k (take j ?rows) \<le> 1"
      using refs_take_le [of ?k j ?rows] one_row by simp
    ultimately show ?thesis by simp
  qed
  have b2: "1 \<le> refs ?k h \<and> refs ?k h \<le> 2" if "h \<in> set hs2" for h
  proof -
    from dl(2) that obtain j where
      "h = filter (\<lambda>x. \<not> deleted e (take j ?ps) x) (documents (snd ?lk))" by auto
    then have "h = filter (\<lambda>x. \<not> deleted e (take j ?ps) x) (documents s) @ ?rows"
      using keep [of "take j ?ps"] by (simp add: lk(1) set_take_subset)
    then have "refs ?k h = refs ?k (filter (\<lambda>x. \<not> deleted e (take j ?ps) x) (documents s)) + 1"
      by (simp add: refs_append one_row)
    moreover have "refs ?k (filter (\<lambda>x. \<not> deleted e (take j ?ps) x) (documents s)) \<le> 1"
      using refs_filter_le [of ?k _ "documents s"] one_doc by simp
    ultimately show ?thesis by simp
  qed
  have bounds: "\<forall>h\<in>set (drop (length (history s)) (history (handleSubmit e s))).
            1 \<le> refs ?k h \<and> refs ?k h \<le> 2"
    unfolding hist using b1 b2 by auto
  have bl: "blobs (handleSubmit e s) = blobs s"
    by (simp add: hs link_phase_simps after_insert_simps)
  have nc: "map fst (new_calls s (handleSubmit e s)) =
      Insert_intent_registration ?row # map Insert_document ?rows @
      map (\<lambda>x. Delete_document (doc_id x)) ?ps"
    by (simp add: hs new_calls_def link_phase_simps lk(2) after_insert_simps comp_def)
  have fin: "refs ?k (documents (handleSubmit e s)) = 1"
    if acc: "accepts e (Delete_document (doc_id d))"
  proof -
    have docs: "documents (handleSubmit e s) =
        filter (\<lambda>x. \<not> deleted e ?ps x) (documents s) @ ?rows"
      using keep [of ?ps] by (simp add: hs link_phase_simps lk(1))
    have "x = d" if "x \<in> set (documents s)" "file_path x = ?k" for x
      using that d_in \<open>inj_on file_path (set (documents s))\<close> by (auto dest: inj_onD)
    moreover have "deleted e ?ps d"
      using acc assms(9) by (auto simp: deleted_def)
    ultimately have "filter (\<lambda>x. file_path x = ?k)
                       (filter (\<lambda>x. \<not> deleted e ?ps x) (documents s)) = []"
      by (auto simp: filter_empty_conv)
    then have "refs ?k (filter (\<lambda>x. \<not> deleted e ?ps x) (documents s)) = 0"
      by (simp add: refs_def)
    then show ?thesis by (simp add: docs refs_append one_row)
  qed
  from bounds bl nc fin show ?thesis by simp
qed


text \<open>
  The claim as stated fails between the two steps: after the linking record of a draft
  is created and before the draft record is deleted, two records reference the blob.
\<close>

theorem linking_keeps_blob_referenced_counterexample:
  "history (intent_page sample_form [draft_a]) = [] \<and>
   history (handleSubmit example_env (intent_page sample_form [draft_a])) =
     [[draft_a, draft_b,
       draft_a\<lparr>doc_id := 101, uploaded_at := 1000, intent_registration_id := Some 100\<rparr>],
      [draft_b,
       draft_a\<lparr>doc_id := 101, uploaded_at := 1000, intent_registration_id := Some 100\<rparr>]] \<and>
   refs (file_path draft_a)
     [draft_a, draft_b,
      draft_a\<lparr>doc_id := 101, uploaded_at := 1000, intent_registration_id := Some 100\<rparr>] = 2"
proof -
  let ?s = "intent_page sample_form [draft_a]"
  let ?row = "intent_row (next_id ?s) 21 (formData ?s)"
  let ?t = "after_insert ?s (Insert_intent_registration ?row) ?row"
  have n: "now_ms example_env = 1000" by (simp add: example_env_def)
  have hs: "handleSubmit example_env ?s =
      (toast Intent_Registration_Submitted (link_phase example_env [draft_a] 100 ?t))
        \<lparr>formData := empty_form, submitting := False\<rparr>"
    using handleSubmit_accepted [OF intent_page_simps(1) sample_guard(1) example_env_simps(1)]
    by (simp add: Let_def intent_page_simps)
  have h: "history (handleSubmit example_env ?s) =
     [[draft_a, draft_b,
       draft_a\<lparr>doc_id := 101, uploaded_at := 1000, intent_registration_id := Some 100\<rparr>],
      [draft_b,
       draft_a\<lparr>doc_id := 101, uploaded_at := 1000, intent_registration_id := Some 100\<rparr>]]"
    by (simp add: hs link_phase_simps deleteDocumentRecordOnly_simps db_insert_document_def
        issue_def Let_def after_insert_simps intent_page_simps example_env_simps n draft_simps)
  have r: "refs (file_path draft_a)
     [draft_a, draft_b,
      draft_a\<lparr>doc_id := 101, uploaded_at := 1000, intent_registration_id := Some 100\<rparr>] = 2"
    by (simp add: refs_def draft_simps)
  from h r show ?thesis by (simp add: intent_page_simps)
qed

theorem linking_keeps_blob_referenced_witness:
  "blobs (handleSubmit example_env (intent_page sample_form [draft_a, draft_b])) =
     [''21/intent_draft/a.pdf'', ''21/intent_draft/b.png''] \<and>
   map fst (new_calls (intent_page sample_form [draft_a, draft_b])
              (handleSubmit example_env (intent_page sample_form [draft_a, draft_b]))) =
     [Insert_intent_registration (intent_row 100 21 sample_form),
      Insert_document
        (draft_a\<lparr>doc_id := 101, uploaded_at := 1000, intent_registration_id := Some 100\<rparr>),
      Insert_document
        (draft_b\<lparr>doc_id := 102, uploaded_at := 1000, intent_registration_id := Some 100\<rparr>),
      Delete_document 7, Delete_document 8] \<and>
   refs ''21/intent_draft/a.pdf''
     (documents (handleSubmit example_env (intent_page sample_form [draft_a, draft_b]))) = 1"
proof -
  let ?s = "intent_page sample_form [draft_a, draft_b]"
  have a: "\<forall>r. accepts example_env (Insert_document r)"
    by (simp add: example_env_simps)
  have n: "now_ms example_env = 1000" by (simp add: example_env_def)
  have w: "set (pendingDocuments ?s) \<subseteq> set (documents ?s)" "distinct (pendingDocuments ?s)"
    "distinct (map file_path (documents ?s))" "\<forall>x\<in>set (documents ?s). doc_id x < next_id ?s"
    "draft_a \<in> set (pendingDocuments ?s)"
    by (simp_all add: intent_page_simps draft_simps)
  from linking_keeps_blob_referenced
         [OF intent_page_simps(1) sample_guard(1) example_env_simps(1) a w]
  show ?thesis
    by (simp add: intent_page_simps draft_simps example_env_simps linked_row_def n)
qed
lemma linkDraftsToIntent_documents:
  "documents (snd (linkDraftsToIntent e ds pid s)) =
     documents s @ fst (linkDraftsToIntent e ds pid s)"
proof (induction ds arbitrary: s)
  case Nil
  then show ?case by simp
next
  case (Cons d ds)
  let ?row = "d\<lparr>intent_registration_id := Some pid, doc_id := next_id s, uploaded_at := now_ms e\<rparr>"
  show ?case
  proof (cases "accepts e (Insert_document ?row)")
    case True
    then have "db_insert_document e (d\<lparr>intent_registration_id := Some pid\<rparr>) s =
        (Some ?row, s\<lparr>calls := calls s @ [(Insert_document ?row, True)],
                       documents := documents s @ [?row], next_id := Suc (next_id s),
                       history := history s @ [documents s @ [?row]]\<rparr>)"
      by (simp add: db_insert_document_def issue_def Let_def)
    then show ?thesis by (simp add: Cons.IH case_prod_beta)
  next
    case False
    then have "db_insert_document e (d\<lparr>intent_registration_id := Some pid\<rparr>) s =
        (None, s\<lparr>calls := calls s @ [(Insert_document ?row, False)]\<rparr>)"
      by (simp add: db_insert_document_def issue_def Let_def)
    then show ?thesis by (simp add: Cons.IH)
  qed
qed

lemma linkDraftsToIntent_rows:
  "r \<in> set (fst (linkDraftsToIntent e ds pid s)) \<Longrightarrow>
   next_id s \<le> doc_id r \<and> (\<exists>d\<in>set ds. r = linked_row e pid (doc_id r) d)"
proof (induction ds arbitrary: s)
  case Nil
  then show ?case by simp
next
  case (Cons d ds)
  let ?row = "d\<lparr>intent_registration_id := Some pid, doc_id := next_id s, uploaded_at := now_ms e\<rparr>"
  show ?case
  proof (cases "accepts e (Insert_document ?row)")
    case True
    let ?s1 = "s\<lparr>calls := calls s @ [(Insert_document ?row, True)],
                       documents := documents s @ [?row], next_id := Suc (next_id s),
                       history := history s @ [documents s @ [?row]]\<rparr>"
    from True have ins: "db_insert_document e (d\<lparr>intent_registration_id := Some pid\<rparr>) s =
        (Some ?row, ?s1)"
      by (simp add: db_insert_document_def issue_def Let_def)
    with Cons.prems consider "r = ?row" | "r \<in> set (fst (linkDraftsToIntent e ds pid ?s1))"
      by (auto simp: case_prod_beta)
    then show ?thesis
    proof cases
      case 1
      then show ?thesis by (simp add: linked_row_def)
    next
      case 2
      from Cons.IH [OF this] show ?thesis by auto
    qed
  next
    case False
    let ?s1 = "console_error ''Error linking draft:''
                 (s\<lparr>calls := calls s @ [(Insert_document ?row, False)]\<rparr>)"
    from False have "db_insert_document e (d\<lparr>intent_registration_id := Some pid\<rparr>) s =
        (None, s\<lparr>calls := calls s @ [(Insert_document ?row, False)]\<rparr>)"
      by (simp add: db_insert_document_def issue_def Let_def)
    with Cons.prems have "r \<in> set (fst (linkDraftsToIntent e ds pid ?s1))"
      by simp
    from Cons.IH [OF this] show ?thesis by (auto simp: console_error_def)
  qed
qed

lemma linkDraftsToIntent_length:
  "length (fst (linkDraftsToIntent e ds pid s)) \<le> length ds"
proof (induction ds arbitrary: s)
  case Nil
  then show ?case by simp
next
  case (Cons d ds)
  obtain r s1 where r: "db_insert_document e (d\<lparr>intent_registration_id := Some pid\<rparr>) s = (r, s1)"
    by (cases "db_insert_document e (d\<lparr>intent_registration_id := Some pid\<rparr>) s")
  show ?case
  proof (cases r)
    case None
    with r Cons.IH [of "console_error ''Error linking draft:'' s1"] show ?thesis by simp
  next
    case (Some row)
    with r Cons.IH [of s1] show ?thesis by (simp add: case_prod_beta)
  qed
qed

lemma linked_row_fields:
  "file_path (linked_row e pid n d) = file_path d \<and>
   filename (linked_row e pid n d) = filename d \<and>
   file_size (linked_row e pid n d) = file_size d \<and>
   mime_type (linked_row e pid n d) = mime_type d \<and>
   intent_registration_id (linked_row e pid n d) = Some pid"
  by (simp add: linked_row_def)

lemma failing_link_simps:
  "accepts failing_link (Insert_intent_registration x)"
  "accepts failing_link (Insert_document r) = (file_path r \<noteq> ''21/intent_draft/a.pdf'')"
  "accepts failing_link (Delete_document i)"
  "now_ms failing_link = 1000"
  "Date_parse failing_link = Date_parse example_env"
  by (simp_all add: failing_link_def example_env_def)

text \<open>
  C3, as the code has it. On a submission whose insert the store accepts, with the ids of
  the N pending drafts below the next id of the store: the document records created
  by the linking are in the documents table after the submission, behind the records
  that the cleanup has left; they are at most N, and each carries the storage key,
  filename, size and mime type of one of the pending drafts and has the id of the new
  intent as parent. When N is not zero the count that the user is told is the number of
  the records created; when N is zero no count is shown. When the store accepts every
  linking record, the records created are N, the k-th of them made from the k-th draft.
\<close>

theorem linked_documents_count:
  assumes "user s = Some uid"
    and "\<not> date_ge (Date_parse e (commencement_date (formData s)))
                 (Date_parse e (completion_date (formData s)))"
    and "accepts e (Insert_intent_registration (intent_row (next_id s) uid (formData s)))"
    and "\<forall>d\<in>set (pendingDocuments s). doc_id d < next_id s"
  shows "intent_registrations (handleSubmit e s) =
           intent_registrations s @ [intent_row (next_id s) uid (formData s)] \<and>
         documents (handleSubmit e s) =
           filter (\<lambda>x. \<not> deleted e (pendingDocuments s) x) (documents s) @
           created_documents (new_calls s (handleSubmit e s)) \<and>
         toasts (handleSubmit e s) =
           toasts s @
           (if pendingDocuments s = [] then []
            else [Documents_Linked (length (created_documents (new_calls s (handleSubmit e s))))]) @
           [Intent_Registration_Submitted] \<and>
         length (created_documents (new_calls s (handleSubmit e s))) \<le>
           length (pendingDocuments s) \<and>
         (\<forall>r\<in>set (created_documents (new_calls s (handleSubmit e s))).
            \<exists>d\<in>set (pendingDocuments s).
              file_path r = file_path d \<and> filename r = filename d \<and>
              file_size r = file_size d \<and> mime_type r = mime_type d \<and>
              intent_registration_id r = Some (next_id s)) \<and>
         ((\<forall>r. accepts e (Insert_document r)) \<longrightarrow>
            length (created_documents (new_calls s (handleSubmit e s))) =
              length (pendingDocuments s) \<and>
            (\<forall>k<length (pendingDocuments s).
               created_documents (new_calls s (handleSubmit e s)) ! k =
                 linked_row e (next_id s) (Suc (next_id s) + k) (pendingDocuments s ! k)))"
proof -
  let ?row = "intent_row (next_id s) uid (formData s)"
  let ?t = "after_insert s (Insert_intent_registration ?row) ?row"
  let ?ps = "pendingDocuments s"
  let ?lk = "linkDraftsToIntent e ?ps (next_id s) ?t"
  let ?created = "created_documents (new_calls s (handleSubmit e s))"
  have hs: "handleSubmit e s =
      (toast Intent_Registration_Submitted
         (if ?ps \<noteq> [] then link_phase e ?ps (next_id s) ?t else ?t))
        \<lparr>formData := empty_form, submitting := False\<rparr>"
    using handleSubmit_accepted [OF assms(1-3)] by (simp add: Let_def)
  have i: "intent_registrations (handleSubmit e s) = intent_registrations s @ [?row]"
    by (simp add: hs link_phase_simps after_insert_simps)
  obtain cs where cs: "calls (snd ?lk) = calls ?t @ cs" "created_documents cs = fst ?lk"
    using linkDraftsToIntent_calls [of e ?ps "next_id s" ?t] by auto
  have cd: "?created = (if ?ps = [] then [] else fst ?lk)"
    by (simp add: hs new_calls_def link_phase_simps cs after_insert_simps
        created_documents_append created_documents_deletes)
  have nil: "fst (linkDraftsToIntent e [] (next_id s) ?t) = []" by simp
  have cd': "?created = fst ?lk"
    using cd nil by (cases "?ps = []") simp_all
  have "toasts (handleSubmit e s) =
      toasts s @ (if ?ps = [] then [] else [Documents_Linked (length (fst ?lk))]) @
      [Intent_Registration_Submitted]"
    by (simp add: hs link_phase_simps after_insert_simps)
  then have t: "toasts (handleSubmit e s) =
      toasts s @ (if ?ps = [] then [] else [Documents_Linked (length ?created)]) @
      [Intent_Registration_Submitted]"
    unfolding cd' .
  have keep: "\<not> deleted e ?ps r" if r: "r \<in> set (fst ?lk)" for r
  proof
    assume "deleted e ?ps r"
    then obtain q where q: "q \<in> set ?ps" "doc_id q = doc_id r"
      by (auto simp: deleted_def)
    with assms(4) have "doc_id q < next_id s" by auto
    moreover from linkDraftsToIntent_rows [OF r] have "Suc (next_id s) \<le> doc_id r"
      by (simp add: after_insert_simps)
    ultimately show False using q(2) by simp
  qed
  then have keep': "filter (\<lambda>x. \<not> deleted e ?ps x) (fst ?lk) = fst ?lk"
    by (simp add: filter_id_conv)
  have "documents (handleSubmit e s) =
      filter (\<lambda>x. \<not> deleted e ?ps x) (documents s) @ fst ?lk"
  proof (cases "?ps = []")
    case True
    then show ?thesis
      by (simp add: hs after_insert_simps deleted_def)
  next
    case False
    then show ?thesis
      by (simp add: hs link_phase_simps linkDraftsToIntent_documents after_insert_simps
          keep')
  qed
  then have d: "documents (handleSubmit e s) =
      filter (\<lambda>x. \<not> deleted e ?ps x) (documents s) @ ?created"
    unfolding cd' .
  have l: "length ?created \<le> length ?ps"
    unfolding cd' by (rule linkDraftsToIntent_length)
  have f: "\<exists>d\<in>set ?ps.
              file_path r = file_path d \<and> filename r = filename d \<and>
              file_size r = file_size d \<and> mime_type r = mime_type d \<and>
              intent_registration_id r = Some (next_id s)"
    if "r \<in> set ?created" for r
  proof -
    from that have "r \<in> set (fst ?lk)" by (simp add: cd')
    from linkDraftsToIntent_rows [OF this]
    obtain d where d: "d \<in> set ?ps" "r = linked_row e (next_id s) (doc_id r) d" by auto
    have "file_path r = file_path d \<and> filename r = filename d \<and>
              file_size r = file_size d \<and> mime_type r = mime_type d \<and>
              intent_registration_id r = Some (next_id s)"
      using linked_row_fields [of e "next_id s" "doc_id r" d]
      unfolding d(2) [symmetric] .
    with d(1) show ?thesis by blast
  qed
  have a: "length ?created = length ?ps \<and>
      (\<forall>k<length ?ps. ?created ! k = linked_row e (next_id s) (Suc (next_id s) + k) (?ps ! k))"
    if "\<forall>r. accepts e (Insert_document r)"
  proof -
    from linkDraftsToIntent_accepted [OF that, of ?ps "next_id s" ?t]
    have "fst ?lk = linked_rows e (next_id s) (Suc (next_id s)) ?ps"
      by (simp add: after_insert_simps)
    then show ?thesis
      by (simp add: cd' linked_rows_length linked_rows_nth)
  qed
  from i d t l f a show ?thesis by blast
qed


text \<open>
  The claim as stated fails where the store rejects a linking record, and where no draft
  is pending: of two pending drafts one is linked and the count shown is 1, and with no
  pending draft no count is shown.
\<close>

theorem linked_documents_count_counterexample:
  "length (pendingDocuments (intent_page sample_form [draft_a, draft_b])) = 2 \<and>
   intent_registrations (handleSubmit failing_link (intent_page sample_form [draft_a, draft_b])) =
     [intent_row 100 21 sample_form] \<and>
   toasts (handleSubmit failing_link (intent_page sample_form [draft_a, draft_b])) =
     [Documents_Linked 1, Intent_Registration_Submitted] \<and>
   pendingDocuments (intent_page sample_form []) = [] \<and>
   toasts (handleSubmit example_env (intent_page sample_form [])) =
     [Intent_Registration_Submitted]"
proof -
  let ?s = "intent_page sample_form [draft_a, draft_b]"
  let ?z = "intent_page sample_form []"
  have g: "\<not> date_ge (Date_parse failing_link (commencement_date (formData ?s)))
       (Date_parse failing_link (completion_date (formData ?s)))"
    using sample_guard(1) [of "[draft_a, draft_b]"] by (simp add: failing_link_simps)
  have a: "handleSubmit failing_link ?s =
      (toast Intent_Registration_Submitted
         (link_phase failing_link [draft_a, draft_b] 100
            (after_insert ?s (Insert_intent_registration (intent_row 100 21 sample_form))
               (intent_row 100 21 sample_form))))
        \<lparr>formData := empty_form, submitting := False\<rparr>"
    using handleSubmit_accepted [OF intent_page_simps(1) g failing_link_simps(1)]
    by (simp add: Let_def intent_page_simps)
  have b: "handleSubmit example_env ?z =
      (toast Intent_Registration_Submitted
         (after_insert ?z (Insert_intent_registration (intent_row 100 21 sample_form))
               (intent_row 100 21 sample_form)))
        \<lparr>formData := empty_form, submitting := False\<rparr>"
    using handleSubmit_accepted [OF intent_page_simps(1) sample_guard(1) example_env_simps(1)]
    by (simp add: Let_def intent_page_simps)
  show ?thesis
    by (simp add: a b link_phase_simps after_insert_simps intent_page_simps
        db_insert_document_def issue_def Let_def failing_link_simps draft_simps)
qed

theorem linked_documents_count_witness:
  "toasts (handleSubmit example_env (intent_page sample_form [draft_a, draft_b])) =
     [Documents_Linked 2, Intent_Registration_Submitted] \<and>
   documents (handleSubmit example_env (intent_page sample_form [draft_a, draft_b])) =
     [draft_a\<lparr>doc_id := 101, uploaded_at := 1000, intent_registration_id := Some 100\<rparr>,
      draft_b\<lparr>doc_id := 102, uploaded_at := 1000, intent_registration_id := Some 100\<rparr>] \<and>
   intent_registrations (handleSubmit example_env (intent_page sample_form [draft_a, draft_b])) =
     [intent_row 100 21 sample_form]"
proof -
  let ?s = "intent_page sample_form [draft_a, draft_b]"
  have a: "\<forall>r. accepts example_env (Insert_document r)"
    by (simp add: example_env_simps)
  have n: "now_ms example_env = 1000" by (simp add: example_env_def)
  have f: "\<forall>d\<in>set (pendingDocuments ?s). doc_id d < next_id ?s"
    by (simp add: intent_page_simps draft_simps)
  have c: "created_documents (new_calls ?s (handleSubmit example_env ?s)) =
      [draft_a\<lparr>doc_id := 101, uploaded_at := 1000, intent_registration_id := Some 100\<rparr>,
       draft_b\<lparr>doc_id := 102, uploaded_at := 1000, intent_registration_id := Some 100\<rparr>]"
    by (simp add: handleSubmit_created [OF intent_page_simps(1) sample_guard(1) example_env_simps(1) a]
        intent_page_simps linked_row_def n)
  from linked_documents_count
         [where s = ?s and e = example_env,
          OF intent_page_simps(1) sample_guard(1) example_env_simps(1) f]
  show ?thesis
    by (simp add: c intent_page_simps deleted_def draft_simps example_env_simps)
qed


text \<open>
  C4. On a submission whose insert the store accepts, when the deletion of the record of
  a pending draft fails: the failure is logged on the console, the notifications are the
  count of linked documents followed by the success of the submission (no failure is
  shown), the intent is recorded, and the draft record stays in the table.
\<close>

theorem cleanup_failure_not_surfaced:
  assumes "user s = Some uid"
    and "\<not> date_ge (Date_parse e (commencement_date (formData s)))
                 (Date_parse e (completion_date (formData s)))"
    and "accepts e (Insert_intent_registration (intent_row (next_id s) uid (formData s)))"
    and "d \<in> set (pendingDocuments s)"
    and "\<not> accepts e (Delete_document (doc_id d))"
  shows "toasts (handleSubmit e s) =
           toasts s @
           [Documents_Linked (length (created_documents (new_calls s (handleSubmit e s)))),
            Intent_Registration_Submitted] \<and>
         ''Error deleting document record:'' \<in> set (console (handleSubmit e s)) \<and>
         intent_registrations (handleSubmit e s) =
           intent_registrations s @ [intent_row (next_id s) uid (formData s)] \<and>
         (d \<in> set (documents s) \<longrightarrow> d \<in> set (documents (handleSubmit e s)))"
proof -
  let ?row = "intent_row (next_id s) uid (formData s)"
  let ?t = "after_insert s (Insert_intent_registration ?row) ?row"
  let ?ps = "pendingDocuments s"
  let ?lk = "linkDraftsToIntent e ?ps (next_id s) ?t"
  from assms(4) have ne: "?ps \<noteq> []" by auto
  have hs: "handleSubmit e s =
      (toast Intent_Registration_Submitted (link_phase e ?ps (next_id s) ?t))
        \<lparr>formData := empty_form, submitting := False\<rparr>"
    using handleSubmit_accepted [OF assms(1-3)] ne by (simp add: Let_def)
  obtain cs where cs: "calls (snd ?lk) = calls ?t @ cs" "created_documents cs = fst ?lk"
    using linkDraftsToIntent_calls [of e ?ps "next_id s" ?t] by auto
  have nc: "new_calls s (handleSubmit e s) =
      (Insert_intent_registration ?row, True) # cs @
      map (\<lambda>d. (Delete_document (doc_id d), accepts e (Delete_document (doc_id d)))) ?ps"
    by (simp add: hs new_calls_def link_phase_simps cs after_insert_simps)
  have cd: "created_documents (new_calls s (handleSubmit e s)) = fst ?lk"
    by (simp add: nc created_documents_append created_documents_deletes cs)
  have t: "toasts (handleSubmit e s) =
      toasts s @ [Documents_Linked (length (fst ?lk)), Intent_Registration_Submitted]"
    by (simp add: hs link_phase_simps after_insert_simps)
  have c: "''Error deleting document record:'' \<in> set (console (handleSubmit e s))"
    using fold_delete_console [OF assms(4,5)] by (simp add: hs link_phase_simps)
  have i: "intent_registrations (handleSubmit e s) = intent_registrations s @ [?row]"
    by (simp add: hs link_phase_simps after_insert_simps)
  have k: "d \<in> set (documents (handleSubmit e s))" if "d \<in> set (documents s)"
  proof -
    from that have "d \<in> set (documents ?t)" by (simp add: after_insert_simps)
    then have "d \<in> set (documents (snd ?lk))" by (rule linkDraftsToIntent_documents_mono)
    moreover have "\<not> deleted e ?ps d" using assms(5) by (simp add: deleted_def)
    ultimately show ?thesis by (simp add: hs link_phase_simps)
  qed
  from t c i k cd show ?thesis by simp
qed

theorem cleanup_failure_not_surfaced_witness:
  "toasts (handleSubmit failing_cleanup (intent_page sample_form [draft_a, draft_b])) =
     [Documents_Linked 2, Intent_Registration_Submitted] \<and>
   ''Error deleting document record:'' \<in>
     set (console (handleSubmit failing_cleanup (intent_page sample_form [draft_a, draft_b]))) \<and>
   draft_a \<in> set (documents (handleSubmit failing_cleanup
                               (intent_page sample_form [draft_a, draft_b])))"
proof -
  let ?s = "intent_page sample_form [draft_a, draft_b]"
  have a: "\<forall>r. accepts failing_cleanup (Insert_document r)"
    by (simp add: sample_accepts)
  have d: "draft_a \<in> set (pendingDocuments ?s)"
    "\<not> accepts failing_cleanup (Delete_document (doc_id draft_a))"
    by (simp_all add: intent_page_simps draft_simps sample_accepts)
  have c: "length (created_documents (new_calls ?s (handleSubmit failing_cleanup ?s))) = 2"
    by (simp add: handleSubmit_created [OF intent_page_simps(1) sample_guard(3) sample_accepts(1) a]
        intent_page_simps)
  from cleanup_failure_not_surfaced
         [OF intent_page_simps(1) sample_guard(3) sample_accepts(1) d] c
  show ?thesis
    by (simp add: intent_page_simps)
qed

section \<open>Properties of the dashboard\<close>


















end
